theory Spec2Isabelle
  imports Main
begin

section \<open>JavaScript values\<close>

text \<open>
  The values the form engine stores and tests. Numbers are the integers and NaN (the
  engine only asks \<open>Number.isNaN\<close> of a number, never does arithmetic); objects are
  lists of own properties in insertion order.
\<close>

datatype jsval =
    JUndefined
  | JNull
  | JBool bool
  | JNum int
  | JNaN
  | JStr string
  | JArr "jsval list"
  | JObj "(string \<times> jsval) list"

datatype error =
    InvalidDefinitionError
  | DuplicateTagError string
  | MissingTypeError
  | TypeError
  | SyntaxError

type_synonym tag = string

text \<open>Truthiness, as \<open>if (x)\<close>, \<open>!x\<close>, \<open>x || y\<close> and \<open>x ? a : b\<close> test it.\<close>

fun truthy :: "jsval \<Rightarrow> bool" where
  "truthy JUndefined = False"
| "truthy JNull = False"
| "truthy (JBool b) = b"
| "truthy (JNum n) = (n \<noteq> 0)"
| "truthy JNaN = False"
| "truthy (JStr s) = (s \<noteq> [])"
| "truthy (JArr xs) = True"
| "truthy (JObj kvs) = True"

text \<open>
  Reading an own property \<open>o.k\<close> of a value that is not null or undefined: an object
  answers with the property, anything else (and a missing property) with undefined.
\<close>

fun js_prop :: "jsval \<Rightarrow> string \<Rightarrow> jsval" where
  "js_prop (JObj kvs) k = (case map_of kvs k of Some v \<Rightarrow> v | None \<Rightarrow> JUndefined)"
| "js_prop v k = JUndefined"

text \<open>Reading a property of null or undefined raises a TypeError.\<close>

definition get_prop :: "jsval \<Rightarrow> string \<Rightarrow> error + jsval" where
  "get_prop v k = (if v = JUndefined \<or> v = JNull then Inl TypeError else Inr (js_prop v k))"

subsection \<open>Number and value to string\<close>

fun show_nat :: "nat \<Rightarrow> string" where
  "show_nat n =
     (if n < 10 then [''0123456789'' ! n]
      else show_nat (n div 10) @ [''0123456789'' ! (n mod 10)])"

definition show_int :: "int \<Rightarrow> string" where
  "show_int i = (if i < 0 then CHR ''-'' # show_nat (nat (- i)) else show_nat (nat i))"

fun join_with :: "string \<Rightarrow> string list \<Rightarrow> string" where
  "join_with sep [] = []"
| "join_with sep [s] = s"
| "join_with sep (s # t # ts) = s @ sep @ join_with sep (t # ts)"

subsection \<open>The lodash functions the engine calls\<close>

text \<open>
  \<open>_.isEmpty\<close>: an array, a string or an object is empty when it has no element,
  character or own property; every other value (null, undefined, booleans, numbers) is
  empty.
\<close>

fun isEmpty :: "jsval \<Rightarrow> bool" where
  "isEmpty (JArr xs) = (xs = [])"
| "isEmpty (JStr s) = (s = [])"
| "isEmpty (JObj kvs) = (kvs = [])"
| "isEmpty v = True"

fun is_prefix :: "string \<Rightarrow> string \<Rightarrow> bool" where
  "is_prefix [] ys = True"
| "is_prefix (x # xs) [] = False"
| "is_prefix (x # xs) (y # ys) = (x = y \<and> is_prefix xs ys)"

text \<open>\<open>hay.indexOf(needle) > -1\<close> on strings.\<close>

fun is_substring :: "string \<Rightarrow> string \<Rightarrow> bool" where
  "is_substring needle [] = (needle = [])"
| "is_substring needle (y # ys) = (is_prefix needle (y # ys) \<or> is_substring needle ys)"

text \<open>
  lodash reads an object that has a \<open>length\<close> property holding a whole number from 0 to
  the greatest safe integer as array-like: its elements are the properties at the
  indexes below the length, undefined where there is none.
\<close>

definition array_like_length :: "(string \<times> jsval) list \<Rightarrow> nat option" where
  "array_like_length kvs =
     (case map_of kvs ''length'' of
        Some (JNum n) \<Rightarrow> if 0 \<le> n \<and> n \<le> 9007199254740991 then Some (nat n) else None
      | _ \<Rightarrow> None)"

definition object_items :: "(string \<times> jsval) list \<Rightarrow> jsval list" where
  "object_items kvs =
     (case array_like_length kvs of
        None \<Rightarrow> map snd kvs
      | Some n \<Rightarrow> map (\<lambda>i. js_prop (JObj kvs) (show_nat i)) [0..<n])"

text \<open>
  \<open>_.includes(collection, target)\<close> for a string target: membership in an array,
  substring of a string, membership among the elements of an array-like object or the
  property values of any other object, false for every other collection.
\<close>

fun js_includes :: "jsval \<Rightarrow> string \<Rightarrow> bool" where
  "js_includes (JArr xs) s = (JStr s \<in> set xs)"
| "js_includes (JStr c) s = is_substring s c"
| "js_includes (JObj kvs) s = (JStr s \<in> set (object_items kvs))"
| "js_includes v s = False"

text \<open>The items \<open>_.forEach\<close> visits, in order.\<close>

fun forEach_items :: "jsval \<Rightarrow> jsval list" where
  "forEach_items (JArr xs) = xs"
| "forEach_items (JObj kvs) = object_items kvs"
| "forEach_items (JStr s) = map (\<lambda>c. JStr [c]) s"
| "forEach_items v = []"

text \<open>\<open>_.flatten\<close>: one level; an array is spread, any other element is kept.\<close>

fun flatten :: "jsval list \<Rightarrow> jsval list" where
  "flatten [] = []"
| "flatten (JArr xs # vs) = xs @ flatten vs"
| "flatten (v # vs) = v # flatten vs"

text \<open>An absent array or object has nothing to visit.\<close>

fun opt_list :: "'a list option \<Rightarrow> 'a list" where
  "opt_list None = []"
| "opt_list (Some xs) = xs"

section \<open>The field tree\<close>

text \<open>
  \<open>DATA_TYPE\<close> (form-const) supplies the type constants the engine switches on; they are
  distinct constants, every other truthy type is \<open>OTHER\<close>.
\<close>

datatype data_type = BOOLEAN | NUMBER | STRING | DATE | ARRAY | OTHER string

datatype pat = PatRaw jsval | PatRegExp string

text \<open>
  The properties of a field object that do not hold other fields. \<open>fref\<close> is the
  identity of the object; \<open>ftype\<close> is \<open>None\<close> for a falsy \<open>type\<close>; the last five are
  what decoration attaches.
\<close>

record fprops =
  fref :: nat
  ftype :: "data_type option"
  fid :: jsval
  calc :: jsval
  fdefinition :: jsval
  showCondition :: jsval
  defaultValueConditions :: jsval
  uiField :: jsval
  componentType :: jsval
  component :: jsval
  pattern :: pat
  parent :: "nat option"

record oprops =
  oref :: nat
  oid :: jsval
  odefaultValueConditions :: jsval
  oparent :: "nat option"

text \<open>
  A field owns an optional \<open>fields\<close> object (tag to child field, in key order) and an
  optional \<open>options\<close> array; an option owns an optional \<open>fields\<close> object.
\<close>

datatype field = Field (props: fprops) (ffields: "(tag \<times> field) list option")
    (options: "foption list option")
and foption = FOption (oprops: oprops) (ofields: "(tag \<times> field) list option")

section \<open>The form definition and the instance\<close>

record form_subsection =
  subsection_fields :: "(tag \<times> field) list option"

record form_section =
  sortOrder :: "int option"
  subsections :: "form_subsection list option"

record form_schema =
  schema_sections :: "form_section list option"
  schema_other :: "(string \<times> jsval) list"

text \<open>
  The definition the caller supplies. A property that is absent is \<open>None\<close>. An entry of
  \<open>uiSchema\<close> is an object, held as its property list; \<open>schema_other\<close> holds the
  properties of the schema besides \<open>sections\<close>.
\<close>

record form_definition =
  schema :: "form_schema option"
  uiSchema :: "(tag \<rightharpoonup> (string \<times> jsval) list) option"
  calcExpressionMap :: "(tag \<rightharpoonup> jsval) option"
  calcTriggerMap :: "(string \<rightharpoonup> tag list) option"
  defaultValueTriggerMap :: "(tag \<rightharpoonup> tag list) option"

text \<open>
  The instance: \<open>defn\<close> is \<open>this.definition\<close> (the caller's object, not a copy),
  \<open>model\<close> is \<open>this.model\<close> (the caller's object too, taken to be an object),
  \<open>fields_by_tag\<close> is \<open>this.fields\<close>, \<open>dirty\<close> holds the \<open>dirty\<close> property of every
  field object, by the object's identity (no field has the property before its first
  \<open>setModelValue\<close>), and \<open>validationResults\<close> answers \<open>getResults(tag)\<close>.
\<close>

record form =
  defn :: form_definition
  model :: "tag \<rightharpoonup> jsval"
  sections :: "form_section list"
  fields_by_tag :: "tag \<rightharpoonup> field"
  dirty :: "nat \<rightharpoonup> bool"
  validationResults :: "tag \<Rightarrow> jsval"

text \<open>
  The collaborators the engine imports and does not define: the expression service, the
  update handler of a field's component (given the field, the current model value and
  the new value; its error stands for whatever the call raises, the unresolved \<open>event\<close>
  it is passed included), \<open>hasValue\<close> and \<open>__blank\<close> of the common module, the
  validation service and its \<open>OK\<close> status, the component configuration, whether
  \<open>new RegExp\<close> accepts a pattern, and the default validator (the results it leaves after
  \<open>clear\<close>, \<open>validate\<close> and \<open>postProcess\<close>). With them goes what the JavaScript engine
  prints for a number beyond the safe integers (rounded digits, and the exponent form
  from 1e21 on), which is not computed here.
\<close>

record collaborators =
  evalCondition :: "jsval \<Rightarrow> form \<Rightarrow> jsval"
  evalExpression :: "jsval \<Rightarrow> form \<Rightarrow> jsval"
  onUpdate :: "field \<Rightarrow> jsval \<Rightarrow> jsval \<Rightarrow> error + jsval"
  hasValue :: "jsval \<Rightarrow> bool"
  blank :: "jsval \<Rightarrow> bool"
  isMoreSevereStatus :: "jsval \<Rightarrow> jsval \<Rightarrow> bool"
  STATUS_OK :: jsval
  getComponentTypeByField :: "field \<Rightarrow> jsval \<Rightarrow> jsval"
  getComponentConfig :: "data_type option \<Rightarrow> jsval \<Rightarrow> jsval"
  regexp_ok :: "string \<Rightarrow> bool"
  FormValidator :: "form \<Rightarrow> tag \<Rightarrow> jsval"
  unsafe_number_string :: "int \<Rightarrow> string"

subsection \<open>Values to strings\<close>

text \<open>
  \<open>String(v)\<close>. A safe integer is printed in decimal digits; an array joins its elements
  with commas, null and undefined as empty.
\<close>

fun js_String :: "collaborators \<Rightarrow> jsval \<Rightarrow> string" where
  "js_String env JUndefined = ''undefined''"
| "js_String env JNull = ''null''"
| "js_String env (JBool b) = (if b then ''true'' else ''false'')"
| "js_String env (JNum n) =
     (if - 9007199254740991 \<le> n \<and> n \<le> 9007199254740991 then show_int n
      else unsafe_number_string env n)"
| "js_String env JNaN = ''NaN''"
| "js_String env (JStr s) = s"
| "js_String env (JArr xs) =
     join_with '','' (map (\<lambda>x. if x = JUndefined \<or> x = JNull then [] else js_String env x) xs)"
| "js_String env (JObj kvs) = ''[object Object]''"

text \<open>\<open>v.toString()\<close>: a TypeError on null and undefined.\<close>

definition toString :: "collaborators \<Rightarrow> jsval \<Rightarrow> error + string" where
  "toString env v = (if v = JUndefined \<or> v = JNull then Inl TypeError else Inr (js_String env v))"

section \<open>The response model\<close>

text \<open>
  \<open>getField\<close> is read at the tags of fields; a name that every object inherits is the tag
  of no field (decoration refuses it) and is not looked up here.
\<close>

definition getField :: "form \<Rightarrow> tag \<Rightarrow> field option" where
  "getField st t = fields_by_tag st t"

definition getModelValue :: "form \<Rightarrow> tag \<Rightarrow> jsval" where
  "getModelValue st t =
     (case model st t of
        None \<Rightarrow> JUndefined
      | Some m \<Rightarrow> if truthy m then js_prop m ''value'' else m)"

text \<open>The object \<open>setModelValue\<close> stores for a value that is not undefined.\<close>

definition modelValue :: "jsval \<Rightarrow> jsval \<Rightarrow> jsval" where
  "modelValue v d =
     JObj ((''value'', v) #
       (if truthy d
        then [(''fieldType'', js_prop d ''type''), (''definitionId'', js_prop d ''definitionId'')]
        else []))"

text \<open>The test of the \<open>switch\<close> on \<open>field.type\<close> that guards the clearing of child fields.\<close>

fun clears_children :: "collaborators \<Rightarrow> data_type option \<Rightarrow> jsval \<Rightarrow> bool" where
  "clears_children env (Some BOOLEAN) v = (v = JBool False)"
| "clears_children env (Some NUMBER) v = (v = JNaN)"
| "clears_children env (Some ARRAY) v = isEmpty v"
| "clears_children env t v = blank env v"

text \<open>
  The emptiness policy in the words of the specification: false for BOOLEAN, not-a-number
  for NUMBER, empty (as \<open>_.isEmpty\<close> has it) for ARRAY, blank for every other type.
\<close>

definition empty_for_type :: "collaborators \<Rightarrow> data_type option \<Rightarrow> jsval \<Rightarrow> bool" where
  "empty_for_type env ty v \<longleftrightarrow>
     (ty = Some BOOLEAN \<and> v = JBool False) \<or>
     (ty = Some NUMBER \<and> v = JNaN) \<or>
     (ty = Some ARRAY \<and> isEmpty v) \<or>
     (ty \<noteq> Some BOOLEAN \<and> ty \<noteq> Some NUMBER \<and> ty \<noteq> Some ARRAY \<and> blank env v)"

text \<open>
  The first statement of \<open>setModelValue\<close>: undefined deletes the entry and resets the
  dirty flag of the field object, any other value stores its object and sets the flag.
\<close>

definition storeValue :: "tag \<Rightarrow> jsval \<Rightarrow> fprops \<Rightarrow> form \<Rightarrow> form" where
  "storeValue t v p st =
     (if v = JUndefined
      then st\<lparr>model := (model st)(t := None), dirty := (dirty st)(fref p \<mapsto> False)\<rparr>
      else st\<lparr>model := (model st)(t \<mapsto> modelValue v (fdefinition p)),
              dirty := (dirty st)(fref p \<mapsto> True)\<rparr>)"

text \<open>
  \<open>setModelValue\<close>, \<open>__clearOptionChildren\<close> and \<open>__clearFields\<close> call each other down
  the field tree. An exception ends the call; the state it leaves is not kept.
\<close>

fun setModelValue :: "collaborators \<Rightarrow> tag \<Rightarrow> jsval \<Rightarrow> field \<Rightarrow> form \<Rightarrow> error + form"
and clearOptionChildren :: "collaborators \<Rightarrow> foption list \<Rightarrow> jsval \<Rightarrow> form \<Rightarrow> error + form"
and clearFields :: "collaborators \<Rightarrow> (tag \<times> field) list \<Rightarrow> form \<Rightarrow> error + form"
where
  "setModelValue env t v (Field p cs os) st =
     (case (case os of
              None \<Rightarrow> Inr (storeValue t v p st)
            | Some opts \<Rightarrow> clearOptionChildren env opts v (storeValue t v p st)) of
        Inl e \<Rightarrow> Inl e
      | Inr st2 \<Rightarrow>
          (case cs of
             None \<Rightarrow> Inr st2
           | Some children \<Rightarrow>
               if clears_children env (ftype p) v then clearFields env children st2
               else Inr st2))"
| "clearOptionChildren env [] v st = Inr st"
| "clearOptionChildren env (FOption q ofs # opts) v st =
     (case ofs of
        None \<Rightarrow> clearOptionChildren env opts v st
      | Some children \<Rightarrow>
          (case toString env (oid q) of
             Inl e \<Rightarrow> Inl e
           | Inr s \<Rightarrow>
               if \<not> js_includes v s
               then (case clearFields env children st of
                       Inl e \<Rightarrow> Inl e
                     | Inr st' \<Rightarrow> clearOptionChildren env opts v st')
               else clearOptionChildren env opts v st))"
| "clearFields env [] st = Inr st"
| "clearFields env ((t, f) # rest) st =
     (if hasValue env (getModelValue st t)
      then (case setModelValue env t JUndefined f st of
              Inl e \<Rightarrow> Inl e
            | Inr st' \<Rightarrow> clearFields env rest st')
      else clearFields env rest st)"

text \<open>The tags and the object identities beneath a field, an options array, a \<open>fields\<close> object.\<close>

fun field_tags :: "field \<Rightarrow> tag list"
and options_tags :: "foption list \<Rightarrow> tag list"
and fields_tags :: "(tag \<times> field) list \<Rightarrow> tag list"
where
  "field_tags (Field p cs os) =
     (case os of None \<Rightarrow> [] | Some opts \<Rightarrow> options_tags opts) @
     (case cs of None \<Rightarrow> [] | Some children \<Rightarrow> fields_tags children)"
| "options_tags [] = []"
| "options_tags (FOption q ofs # opts) =
     (case ofs of None \<Rightarrow> [] | Some children \<Rightarrow> fields_tags children) @ options_tags opts"
| "fields_tags [] = []"
| "fields_tags ((t, f) # rest) = t # field_tags f @ fields_tags rest"

fun field_refs :: "field \<Rightarrow> nat list"
and options_refs :: "foption list \<Rightarrow> nat list"
and fields_refs :: "(tag \<times> field) list \<Rightarrow> nat list"
where
  "field_refs (Field p cs os) =
     (case os of None \<Rightarrow> [] | Some opts \<Rightarrow> options_refs opts) @
     (case cs of None \<Rightarrow> [] | Some children \<Rightarrow> fields_refs children)"
| "options_refs [] = []"
| "options_refs (FOption q ofs # opts) =
     (case ofs of None \<Rightarrow> [] | Some children \<Rightarrow> fields_refs children) @ options_refs opts"
| "fields_refs [] = []"
| "fields_refs ((t, f) # rest) = fref (props f) # field_refs f @ fields_refs rest"

text \<open>
  Every option beneath the field that owns fields has an id to stringify (one that is
  not null or undefined).
\<close>

fun field_ids_ok :: "field \<Rightarrow> bool"
and options_ids_ok :: "foption list \<Rightarrow> bool"
and fields_ids_ok :: "(tag \<times> field) list \<Rightarrow> bool"
where
  "field_ids_ok (Field p cs os) \<longleftrightarrow>
     (case os of None \<Rightarrow> True | Some opts \<Rightarrow> options_ids_ok opts) \<and>
     (case cs of None \<Rightarrow> True | Some children \<Rightarrow> fields_ids_ok children)"
| "options_ids_ok [] \<longleftrightarrow> True"
| "options_ids_ok (FOption q ofs # opts) \<longleftrightarrow>
     (case ofs of
        None \<Rightarrow> True
      | Some children \<Rightarrow> oid q \<noteq> JUndefined \<and> oid q \<noteq> JNull \<and> fields_ids_ok children) \<and>
     options_ids_ok opts"
| "fields_ids_ok [] \<longleftrightarrow> True"
| "fields_ids_ok ((t, f) # rest) \<longleftrightarrow> field_ids_ok f \<and> fields_ids_ok rest"

text \<open>
  What a run of clears may do to an instance: entries of the model go away or stay, a
  dirty flag stays or becomes false, nothing else changes.
\<close>

definition only_clears :: "form \<Rightarrow> form \<Rightarrow> bool" where
  "only_clears st st' \<longleftrightarrow>
     (\<forall>k. model st' k = None \<or> model st' k = model st k) \<and>
     (\<forall>r. dirty st' r = dirty st r \<or> dirty st' r = Some False) \<and>
     defn st' = defn st \<and> sections st' = sections st \<and>
     fields_by_tag st' = fields_by_tag st \<and> validationResults st' = validationResults st"

definition same_outside :: "tag set \<Rightarrow> nat set \<Rightarrow> form \<Rightarrow> form \<Rightarrow> bool" where
  "same_outside T R st st' \<longleftrightarrow>
     (\<forall>k. k \<notin> T \<longrightarrow> model st' k = model st k) \<and>
     (\<forall>r. r \<notin> R \<longrightarrow> dirty st' r = dirty st r)"

text \<open>
  The fields a clear reaches, read off the instance as it is before the clear, each with
  its tag and the identity of its object. \<open>__clearFields\<close> reaches every field of the
  \<open>fields\<close> object that holds a value, and passes by a field that holds none together
  with everything beneath it. From a field it reaches, the clear goes on to the fields of
  each of that field's options (undefined contains no id) and, when undefined is empty for
  the field's type, to its child fields.
\<close>

fun reach_field :: "collaborators \<Rightarrow> form \<Rightarrow> field \<Rightarrow> (tag \<times> nat) list"
and reach_options :: "collaborators \<Rightarrow> form \<Rightarrow> foption list \<Rightarrow> (tag \<times> nat) list"
and reach_fields :: "collaborators \<Rightarrow> form \<Rightarrow> (tag \<times> field) list \<Rightarrow> (tag \<times> nat) list"
where
  "reach_field env st (Field p cs os) =
     (case os of None \<Rightarrow> [] | Some opts \<Rightarrow> reach_options env st opts) @
     (case cs of
        None \<Rightarrow> []
      | Some children \<Rightarrow>
          if empty_for_type env (ftype p) JUndefined then reach_fields env st children else [])"
| "reach_options env st [] = []"
| "reach_options env st (FOption q ofs # opts) =
     (case ofs of None \<Rightarrow> [] | Some children \<Rightarrow> reach_fields env st children) @
     reach_options env st opts"
| "reach_fields env st [] = []"
| "reach_fields env st ((t, f) # rest) =
     (if hasValue env (getModelValue st t)
      then (t, fref (props f)) # reach_field env st f
      else []) @
     reach_fields env st rest"

text \<open>
  The instance \<open>st'\<close> is \<open>st\<close> with the fields listed in \<open>R\<close> cleared: their entries are
  gone from the model and their dirty flags are false, every other entry and flag is as
  it was.
\<close>

definition cleared_as :: "(tag \<times> nat) list \<Rightarrow> form \<Rightarrow> form \<Rightarrow> bool" where
  "cleared_as R st st' \<longleftrightarrow>
     (\<forall>k. model st' k = (if k \<in> fst ` set R then None else model st k)) \<and>
     (\<forall>r. dirty st' r = (if r \<in> snd ` set R then Some False else dirty st r))"

section \<open>The dependency cascades\<close>

text \<open>
  The conditions \<open>evaluateDefaultValueConditions\<close> runs for a field: its own
  \<open>defaultValueConditions\<close> when that is truthy, otherwise the flattened list of what
  each option has under that name (an option without it contributes undefined).
\<close>

definition conditions_of :: "field \<Rightarrow> jsval list" where
  "conditions_of f =
     (if truthy (defaultValueConditions (props f))
      then forEach_items (defaultValueConditions (props f))
      else flatten (map (\<lambda>opt. odefaultValueConditions (oprops opt))
             (case options f of None \<Rightarrow> [] | Some opts \<Rightarrow> opts)))"

text \<open>
  The inner loop of \<open>evaluateDefaultValueConditions\<close> for the field at one tag. The
  update handler is reached through \<open>field.component\<close>, a TypeError when that is null
  or undefined.
\<close>

fun runConditions :: "collaborators \<Rightarrow> tag \<Rightarrow> field \<Rightarrow> jsval list \<Rightarrow> form \<Rightarrow> error + form" where
  "runConditions env t f [] st = Inr st"
| "runConditions env t f (c # cs) st =
     (case get_prop c ''condition'' of
        Inl e \<Rightarrow> Inl e
      | Inr cond \<Rightarrow>
          if truthy (evalCondition env cond st)
          then (case (if ftype (props f) = Some ARRAY
                      then (if component (props f) = JUndefined \<or> component (props f) = JNull
                            then Inl TypeError
                            else onUpdate env f (getModelValue st t)
                                   (evalExpression env (js_prop c ''expression'') st))
                      else Inr (evalExpression env (js_prop c ''expression'') st)) of
                  Inl e \<Rightarrow> Inl e
                | Inr defaultValue \<Rightarrow>
                    (case setModelValue env t defaultValue f st of
                       Inl e \<Rightarrow> Inl e
                     | Inr st' \<Rightarrow> runConditions env t f cs st'))
          else runConditions env t f cs st)"

fun evaluateDefaultValueConditions :: "collaborators \<Rightarrow> tag list \<Rightarrow> form \<Rightarrow> error + form" where
  "evaluateDefaultValueConditions env [] st = Inr st"
| "evaluateDefaultValueConditions env (t # ts) st =
     (case getField st t of
        None \<Rightarrow> Inl TypeError
      | Some f \<Rightarrow>
          (case runConditions env t f (conditions_of f) st of
             Inl e \<Rightarrow> Inl e
           | Inr st' \<Rightarrow> evaluateDefaultValueConditions env ts st'))"

definition triggerDefaultValueEvaluation :: "collaborators \<Rightarrow> tag \<Rightarrow> form \<Rightarrow> error + form" where
  "triggerDefaultValueEvaluation env t st =
     (case defaultValueTriggerMap (defn st) of
        None \<Rightarrow> Inl TypeError
      | Some m \<Rightarrow>
          (case m t of
             None \<Rightarrow> Inr st
           | Some tagsToEvaluate \<Rightarrow> evaluateDefaultValueConditions env tagsToEvaluate st))"

definition getCalcExpressionByTag :: "form \<Rightarrow> tag \<Rightarrow> jsval" where
  "getCalcExpressionByTag st t =
     (case calcExpressionMap (defn st) of
        None \<Rightarrow> JUndefined
      | Some m \<Rightarrow> (case m t of None \<Rightarrow> JUndefined | Some e \<Rightarrow> e))"

text \<open>
  The loop of \<open>calculateFields\<close> over the tag list. \<open>setModelValue\<close> reads a property of
  the field it is given, so a tag without a field raises a TypeError.
\<close>

fun calculateTags :: "collaborators \<Rightarrow> tag list \<Rightarrow> form \<Rightarrow> error + form" where
  "calculateTags env [] st = Inr st"
| "calculateTags env (t # ts) st =
     (if truthy (getCalcExpressionByTag st t)
      then (case getField st t of
              None \<Rightarrow> Inl TypeError
            | Some f \<Rightarrow>
                (case setModelValue env t (evalExpression env (getCalcExpressionByTag st t) st) f st of
                   Inl e \<Rightarrow> Inl e
                 | Inr st1 \<Rightarrow>
                     (case triggerDefaultValueEvaluation env t st1 of
                        Inl e \<Rightarrow> Inl e
                      | Inr st2 \<Rightarrow> calculateTags env ts st2)))
      else calculateTags env ts st)"

definition calculateFields :: "collaborators \<Rightarrow> field \<Rightarrow> form \<Rightarrow> error + form" where
  "calculateFields env f st =
     (if truthy (calc (props f))
      then (case calcTriggerMap (defn st) of
              None \<Rightarrow> Inl TypeError
            | Some m \<Rightarrow>
                calculateTags env
                  (case m (js_String env (fid (props f))) of None \<Rightarrow> [] | Some tagList \<Rightarrow> tagList) st)
      else Inr st)"

text \<open>
  The calculation cascade in the words of the specification: a loop that stops at the
  first exception, and the step for one dependent tag (evaluate the expression the tag
  has in \<open>calcExpressionMap\<close>, write the result for the field at the tag, then run the
  default-value cascade for the same tag).
\<close>

fun forEach_err :: "('a \<Rightarrow> 's \<Rightarrow> error + 's) \<Rightarrow> 'a list \<Rightarrow> 's \<Rightarrow> error + 's" where
  "forEach_err step [] st = Inr st"
| "forEach_err step (x # xs) st =
     (case step x st of Inl e \<Rightarrow> Inl e | Inr st' \<Rightarrow> forEach_err step xs st')"

definition calculate_tag :: "collaborators \<Rightarrow> tag \<Rightarrow> form \<Rightarrow> error + form" where
  "calculate_tag env t st =
     (if \<not> truthy (getCalcExpressionByTag st t) then Inr st
      else case getField st t of
             None \<Rightarrow> Inl TypeError
           | Some f \<Rightarrow>
               (case setModelValue env t (evalExpression env (getCalcExpressionByTag st t) st) f st of
                  Inl e \<Rightarrow> Inl e
                | Inr written \<Rightarrow> triggerDefaultValueEvaluation env t written))"

section \<open>Visibility\<close>

definition evaluateShowCondition ::
  "collaborators \<Rightarrow> field \<Rightarrow> tag \<Rightarrow> form \<Rightarrow> error + (jsval \<times> form)" where
  "evaluateShowCondition env f t st =
     (if \<not> truthy (showCondition (props f)) then Inr (JBool True, st)
      else let showField = evalCondition env (showCondition (props f)) st in
        if \<not> truthy showField
        then (if \<not> blank env (getModelValue st t)
              then (case setModelValue env t JUndefined f st of
                      Inl e \<Rightarrow> Inl e
                    | Inr st' \<Rightarrow> Inr (showField, st'))
              else Inr (showField, st))
        else Inr (showField, st))"

section \<open>Validation status\<close>

definition getValidationStatusByTag :: "form \<Rightarrow> tag \<Rightarrow> error + jsval" where
  "getValidationStatusByTag st t = get_prop (validationResults st t) ''status''"

text \<open>
  The loop of \<open>getStatus\<close>: \<open>items\<close> are what the callback is given (the tags when
  \<open>useTag\<close> is set, the elements otherwise), \<open>status\<close> is the running status.
\<close>

fun getStatus_loop ::
  "collaborators \<Rightarrow> ('a \<Rightarrow> error + jsval) \<Rightarrow> 'a list \<Rightarrow> jsval \<Rightarrow> error + jsval" where
  "getStatus_loop env statusOf [] status = Inr status"
| "getStatus_loop env statusOf (i # rest) status =
     (case statusOf i of
        Inl e \<Rightarrow> Inl e
      | Inr iStatus \<Rightarrow>
          getStatus_loop env statusOf rest
            (if isMoreSevereStatus env iStatus status then iStatus else status))"

definition getStatus :: "collaborators \<Rightarrow> 'a list \<Rightarrow> ('a \<Rightarrow> error + jsval) \<Rightarrow> error + jsval" where
  "getStatus env items statusOf = getStatus_loop env statusOf items (STATUS_OK env)"

definition getSubsectionStatus :: "collaborators \<Rightarrow> form \<Rightarrow> form_subsection \<Rightarrow> error + jsval" where
  "getSubsectionStatus env st sub =
     getStatus env
       (case subsection_fields sub of None \<Rightarrow> [] | Some fs \<Rightarrow> map fst fs)
       (getValidationStatusByTag st)"

definition getSectionStatus :: "collaborators \<Rightarrow> form \<Rightarrow> form_section \<Rightarrow> error + jsval" where
  "getSectionStatus env st sec =
     getStatus env
       (case subsections sec of None \<Rightarrow> [] | Some subs \<Rightarrow> subs)
       (getSubsectionStatus env st)"

text \<open>
  The rollup in the words of the specification: \<open>r\<close> is the first status of the list
  \<open>xs\<close> among those of greatest severity.
\<close>

definition first_most_severe :: "(jsval \<Rightarrow> nat) \<Rightarrow> jsval list \<Rightarrow> jsval \<Rightarrow> bool" where
  "first_most_severe sev xs r \<longleftrightarrow>
     (\<exists>i < length xs. xs ! i = r \<and> (\<forall>j < length xs. sev (xs ! j) \<le> sev r) \<and>
        (\<forall>j < i. sev (xs ! j) < sev r))"

section \<open>Construction\<close>

subsection \<open>The copy of the schema\<close>

text \<open>
  \<open>JSON.parse(JSON.stringify(v))\<close>: NaN becomes null, an undefined element of an array
  becomes null, a property whose value is undefined is left out.
\<close>

fun json_value :: "jsval \<Rightarrow> jsval"
and json_elems :: "jsval list \<Rightarrow> jsval list"
and json_props :: "(string \<times> jsval) list \<Rightarrow> (string \<times> jsval) list"
where
  "json_value (JArr xs) = JArr (json_elems xs)"
| "json_value (JObj kvs) = JObj (json_props kvs)"
| "json_value JNaN = JNull"
| "json_value JUndefined = JUndefined"
| "json_value JNull = JNull"
| "json_value (JBool b) = JBool b"
| "json_value (JNum n) = JNum n"
| "json_value (JStr s) = JStr s"
| "json_elems [] = []"
| "json_elems (x # xs) = (if x = JUndefined then JNull else json_value x) # json_elems xs"
| "json_props [] = []"
| "json_props ((k, v) # kvs) =
     (if v = JUndefined then json_props kvs else (k, json_value v) # json_props kvs)"

text \<open>
  The copy of a field keeps the identity the node has in the instance (\<open>fref\<close>); a
  regular expression object is copied as an empty object. The schema is taken to hold no
  \<open>parent\<close> reference, which the copy would keep.
\<close>

definition clone_props :: "fprops \<Rightarrow> fprops" where
  "clone_props p =
     p\<lparr>fid := json_value (fid p), calc := json_value (calc p),
       fdefinition := json_value (fdefinition p), showCondition := json_value (showCondition p),
       defaultValueConditions := json_value (defaultValueConditions p),
       uiField := json_value (uiField p), componentType := json_value (componentType p),
       component := json_value (component p),
       pattern := (case pattern p of PatRaw v \<Rightarrow> PatRaw (json_value v)
                   | PatRegExp s \<Rightarrow> PatRaw (JObj []))\<rparr>"

definition clone_oprops :: "oprops \<Rightarrow> oprops" where
  "clone_oprops q =
     q\<lparr>oid := json_value (oid q),
       odefaultValueConditions := json_value (odefaultValueConditions q)\<rparr>"

fun clone_field :: "field \<Rightarrow> field"
and clone_options :: "foption list \<Rightarrow> foption list"
and clone_fields :: "(tag \<times> field) list \<Rightarrow> (tag \<times> field) list"
where
  "clone_field (Field p cs os) =
     Field (clone_props p)
       (case cs of None \<Rightarrow> None | Some children \<Rightarrow> Some (clone_fields children))
       (case os of None \<Rightarrow> None | Some opts \<Rightarrow> Some (clone_options opts))"
| "clone_options [] = []"
| "clone_options (FOption q ofs # opts) =
     FOption (clone_oprops q)
       (case ofs of None \<Rightarrow> None | Some children \<Rightarrow> Some (clone_fields children))
     # clone_options opts"
| "clone_fields [] = []"
| "clone_fields ((t, f) # rest) = (t, clone_field f) # clone_fields rest"

definition clone_subsection :: "form_subsection \<Rightarrow> form_subsection" where
  "clone_subsection sub =
     sub\<lparr>subsection_fields :=
       (case subsection_fields sub of None \<Rightarrow> None | Some fs \<Rightarrow> Some (clone_fields fs))\<rparr>"

definition clone_section :: "form_section \<Rightarrow> form_section" where
  "clone_section sec =
     sec\<lparr>subsections :=
       (case subsections sec of None \<Rightarrow> None | Some subs \<Rightarrow> Some (map clone_subsection subs))\<rparr>"

text \<open>
  \<open>_.sortBy(sections, 'sortOrder')\<close>: a stable ascending sort that makes a new array; a
  section without \<open>sortOrder\<close> goes after those that have one.
\<close>

definition sortOrder_le :: "int option \<Rightarrow> int option \<Rightarrow> bool" where
  "sortOrder_le a b =
     (case b of None \<Rightarrow> True | Some y \<Rightarrow> (case a of None \<Rightarrow> False | Some x \<Rightarrow> x \<le> y))"

fun insert_section :: "form_section \<Rightarrow> form_section list \<Rightarrow> form_section list" where
  "insert_section x [] = [x]"
| "insert_section x (y # ys) =
     (if sortOrder_le (sortOrder y) (sortOrder x) then y # insert_section x ys else x # y # ys)"

definition sortBy_sortOrder :: "form_section list \<Rightarrow> form_section list" where
  "sortBy_sortOrder xs = foldl (\<lambda>acc x. insert_section x acc) [] xs"

subsection \<open>Decoration\<close>

text \<open>
  \<open>this.fields\<close> starts as \<open>{}\<close>, so reading it at one of the names every object
  inherits answers a function (the prototype itself for \<open>__proto__\<close>), which is truthy:
  \<open>__decorateField\<close> takes such a tag for one that already exists.
\<close>

definition inherited_names :: "string list" where
  "inherited_names =
     [''constructor'', ''hasOwnProperty'', ''isPrototypeOf'', ''propertyIsEnumerable'',
      ''toLocaleString'', ''toString'', ''valueOf'', ''__proto__'', ''__defineGetter__'',
      ''__defineSetter__'', ''__lookupGetter__'', ''__lookupSetter__'']"

definition already_exists :: "form \<Rightarrow> tag \<Rightarrow> bool" where
  "already_exists st t \<longleftrightarrow> fields_by_tag st t \<noteq> None \<or> t \<in> set inherited_names"

definition getUiSchemaField :: "form \<Rightarrow> tag \<Rightarrow> (string \<times> jsval) list option" where
  "getUiSchemaField st t = (case uiSchema (defn st) of None \<Rightarrow> None | Some u \<Rightarrow> u t)"

text \<open>Assigning an own property of an object: in place when it exists, appended otherwise.\<close>

fun set_own :: "(string \<times> jsval) list \<Rightarrow> string \<Rightarrow> jsval \<Rightarrow> (string \<times> jsval) list" where
  "set_own [] k v = [(k, v)]"
| "set_own ((k', v') # kvs) k v = (if k' = k then (k, v) # kvs else (k', v') # set_own kvs k v)"

text \<open>
  \<open>__addComponentToUiSchemaAndReturnUiField\<close> writes into \<open>this.definition.uiSchema\<close>,
  the caller's object; reading a tag of an absent \<open>uiSchema\<close> raises a TypeError.
\<close>

definition addComponentToUiSchemaAndReturnUiField ::
  "tag \<Rightarrow> jsval \<Rightarrow> form \<Rightarrow> error + (jsval \<times> form)" where
  "addComponentToUiSchemaAndReturnUiField t ty st =
     (case uiSchema (defn st) of
        None \<Rightarrow> Inl TypeError
      | Some u \<Rightarrow>
          (let uiF = set_own (case u t of None \<Rightarrow> [] | Some kvs \<Rightarrow> kvs) ''component''
                       (JObj [(''type'', ty)])
           in Inr (JObj uiF, st\<lparr>defn := (defn st)\<lparr>uiSchema := Some (u(t \<mapsto> uiF))\<rparr>\<rparr>)))"

text \<open>
  The statements of \<open>__decorateField\<close> between the two checks and the children: the
  UI field, the component type and configuration, the compiled pattern.
\<close>

definition decorateProps ::
  "collaborators \<Rightarrow> field \<Rightarrow> jsval \<Rightarrow> error + fprops" where
  "decorateProps env f ui =
     (let p1 = (props f)\<lparr>uiField := ui\<rparr>;
          p2 = p1\<lparr>componentType := getComponentTypeByField env (Field p1 (ffields f) (options f)) ui\<rparr>;
          p3 = p2\<lparr>component := getComponentConfig env (ftype p2) (componentType p2)\<rparr>
      in case pattern p3 of
           PatRaw (JStr s) \<Rightarrow>
             if regexp_ok env s then Inr (p3\<lparr>pattern := PatRegExp s\<rparr>) else Inl SyntaxError
         | _ \<Rightarrow> Inr p3)"

definition set_parent :: "nat \<Rightarrow> field \<Rightarrow> field" where
  "set_parent r f = Field ((props f)\<lparr>parent := Some r\<rparr>) (ffields f) (options f)"

fun decorateField ::
  "collaborators \<Rightarrow> field \<Rightarrow> tag \<Rightarrow> jsval \<Rightarrow> form \<Rightarrow> error + (field \<times> form)"
and decorateOptions ::
  "collaborators \<Rightarrow> nat \<Rightarrow> foption list \<Rightarrow> form \<Rightarrow> error + (foption list \<times> form)"
and decorateChildren ::
  "collaborators \<Rightarrow> nat \<Rightarrow> (tag \<times> field) list \<Rightarrow> form \<Rightarrow> error + ((tag \<times> field) list \<times> form)"
where
  "decorateField env (Field p cs os) t formComponentKey st =
     (if already_exists st t then Inl (DuplicateTagError t)
      else if ftype p = None then Inl MissingTypeError
      else
        (case (if truthy formComponentKey
               then addComponentToUiSchemaAndReturnUiField t formComponentKey st
               else Inr (case getUiSchemaField st t of None \<Rightarrow> JObj [] | Some kvs \<Rightarrow> JObj kvs, st)) of
           Inl e \<Rightarrow> Inl e
         | Inr (ui, st1) \<Rightarrow>
             (case decorateProps env (Field p cs os) ui of
                Inl e \<Rightarrow> Inl e
              | Inr p' \<Rightarrow>
                  (case (case cs of
                           None \<Rightarrow> Inr (None, st1)
                         | Some children \<Rightarrow>
                             (case decorateChildren env (fref p) children st1 of
                                Inl e \<Rightarrow> Inl e
                              | Inr (children', st2) \<Rightarrow> Inr (Some children', st2))) of
                     Inl e \<Rightarrow> Inl e
                   | Inr (cs', st2) \<Rightarrow>
                       (case (case os of
                                None \<Rightarrow> Inr (None, st2)
                              | Some opts \<Rightarrow>
                                  (case decorateOptions env (fref p) opts st2 of
                                     Inl e \<Rightarrow> Inl e
                                   | Inr (opts', st3) \<Rightarrow> Inr (Some opts', st3))) of
                          Inl e \<Rightarrow> Inl e
                        | Inr (os', st3) \<Rightarrow>
                            Inr (Field p' cs' os',
                                 st3\<lparr>fields_by_tag := (fields_by_tag st3)(t \<mapsto> Field p' cs' os')\<rparr>))))))"
| "decorateOptions env r [] st = Inr ([], st)"
| "decorateOptions env r (FOption q ofs # opts) st =
     (case (case ofs of
              None \<Rightarrow> Inr (None, st)
            | Some children \<Rightarrow>
                (case decorateChildren env (oref q) children st of
                   Inl e \<Rightarrow> Inl e
                 | Inr (children', st1) \<Rightarrow> Inr (Some children', st1))) of
        Inl e \<Rightarrow> Inl e
      | Inr (ofs', st1) \<Rightarrow>
          (case decorateOptions env r opts st1 of
             Inl e \<Rightarrow> Inl e
           | Inr (opts', st2) \<Rightarrow> Inr (FOption (q\<lparr>oparent := Some r\<rparr>) ofs' # opts', st2)))"
| "decorateChildren env r [] st = Inr ([], st)"
| "decorateChildren env r ((t, child) # rest) st =
     (case decorateField env child t JUndefined st of
        Inl e \<Rightarrow> Inl e
      | Inr (child', st1) \<Rightarrow>
          (case decorateChildren env r rest
                  (st1\<lparr>fields_by_tag := (fields_by_tag st1)(t \<mapsto> set_parent r child')\<rparr>) of
             Inl e \<Rightarrow> Inl e
           | Inr (rest', st2) \<Rightarrow> Inr ((t, set_parent r child') # rest', st2)))"

text \<open>The three loops of \<open>__initFields\<close>; no component key is passed to \<open>__decorateField\<close>.\<close>

fun decorateSubsectionFields ::
  "collaborators \<Rightarrow> (tag \<times> field) list \<Rightarrow> form \<Rightarrow> error + ((tag \<times> field) list \<times> form)" where
  "decorateSubsectionFields env [] st = Inr ([], st)"
| "decorateSubsectionFields env ((t, f) # rest) st =
     (case decorateField env f t JUndefined st of
        Inl e \<Rightarrow> Inl e
      | Inr (f', st1) \<Rightarrow>
          (case decorateSubsectionFields env rest st1 of
             Inl e \<Rightarrow> Inl e
           | Inr (rest', st2) \<Rightarrow> Inr ((t, f') # rest', st2)))"

fun decorateSubsections ::
  "collaborators \<Rightarrow> form_subsection list \<Rightarrow> form \<Rightarrow> error + (form_subsection list \<times> form)" where
  "decorateSubsections env [] st = Inr ([], st)"
| "decorateSubsections env (sub # subs) st =
     (case (case subsection_fields sub of
              None \<Rightarrow> Inr (sub, st)
            | Some fs \<Rightarrow>
                (case decorateSubsectionFields env fs st of
                   Inl e \<Rightarrow> Inl e
                 | Inr (fs', st1) \<Rightarrow> Inr (sub\<lparr>subsection_fields := Some fs'\<rparr>, st1))) of
        Inl e \<Rightarrow> Inl e
      | Inr (sub', st1) \<Rightarrow>
          (case decorateSubsections env subs st1 of
             Inl e \<Rightarrow> Inl e
           | Inr (subs', st2) \<Rightarrow> Inr (sub' # subs', st2)))"

fun decorateSections ::
  "collaborators \<Rightarrow> form_section list \<Rightarrow> form \<Rightarrow> error + (form_section list \<times> form)" where
  "decorateSections env [] st = Inr ([], st)"
| "decorateSections env (sec # secs) st =
     (case (case subsections sec of
              None \<Rightarrow> Inr (sec, st)
            | Some subs \<Rightarrow>
                (case decorateSubsections env subs st of
                   Inl e \<Rightarrow> Inl e
                 | Inr (subs', st1) \<Rightarrow> Inr (sec\<lparr>subsections := Some subs'\<rparr>, st1))) of
        Inl e \<Rightarrow> Inl e
      | Inr (sec', st1) \<Rightarrow>
          (case decorateSections env secs st1 of
             Inl e \<Rightarrow> Inl e
           | Inr (secs', st2) \<Rightarrow> Inr (sec' # secs', st2)))"

text \<open>
  \<open>__initFields\<close>: \<open>this.sections\<close> becomes the sorted copy, whose fields are then
  decorated where they stand.
\<close>

definition initFields :: "collaborators \<Rightarrow> form \<Rightarrow> error + form" where
  "initFields env st =
     (case schema (defn st) of
        None \<Rightarrow> Inl TypeError
      | Some sch \<Rightarrow>
          (let copy = map clone_section
                 (sortBy_sortOrder (case schema_sections sch of None \<Rightarrow> [] | Some secs \<Rightarrow> secs))
           in case decorateSections env copy (st\<lparr>sections := copy\<rparr>) of
                Inl e \<Rightarrow> Inl e
              | Inr (secs', st') \<Rightarrow> Inr (st'\<lparr>sections := secs'\<rparr>)))"

text \<open>
  \<open>validate\<close> with the validator in use (\<open>validator || FormValidator\<close>, an object, so
  \<open>hasValidator\<close> holds): the results are what the validator leaves for the instance.
\<close>

definition validate ::
  "collaborators \<Rightarrow> (form \<Rightarrow> tag \<Rightarrow> jsval) option \<Rightarrow> form \<Rightarrow> form" where
  "validate env validator st =
     st\<lparr>validationResults := (case validator of None \<Rightarrow> FormValidator env | Some v \<Rightarrow> v) st\<rparr>"

definition initInstance ::
  "collaborators \<Rightarrow> (form \<Rightarrow> tag \<Rightarrow> jsval) option \<Rightarrow> form \<Rightarrow> error + form" where
  "initInstance env validator st =
     (case initFields env st of Inl e \<Rightarrow> Inl e | Inr st1 \<Rightarrow> Inr (validate env validator st1))"

definition definition_isEmpty :: "form_definition \<Rightarrow> bool" where
  "definition_isEmpty d \<longleftrightarrow>
     schema d = None \<and> uiSchema d = None \<and> calcExpressionMap d = None \<and>
     calcTriggerMap d = None \<and> defaultValueTriggerMap d = None"

definition schema_isEmpty :: "form_schema \<Rightarrow> bool" where
  "schema_isEmpty sch \<longleftrightarrow> schema_sections sch = None \<and> schema_other sch = []"

text \<open>
  The constructor behind \<open>FormInstanceFactory\<close>. A definition or schema that is null or
  undefined is \<open>None\<close>; \<open>hasValue\<close> accepts every object, so an object is refused only
  when it is empty. The two messages about the definition and the schema are
  \<open>InvalidDefinitionError\<close>, the message that a tag already exists is
  \<open>DuplicateTagError\<close>, the message about the \<open>type\<close> property is \<open>MissingTypeError\<close>.
\<close>

definition FormInstanceFactory ::
  "collaborators \<Rightarrow> form_definition option \<Rightarrow> (tag \<rightharpoonup> jsval) \<Rightarrow> (form \<Rightarrow> tag \<Rightarrow> jsval) option
   \<Rightarrow> error + form" where
  "FormInstanceFactory env definition m validator =
     (case definition of
        None \<Rightarrow> Inl InvalidDefinitionError
      | Some d \<Rightarrow>
          if definition_isEmpty d then Inl InvalidDefinitionError
          else (case schema d of
                  None \<Rightarrow> Inl InvalidDefinitionError
                | Some sch \<Rightarrow>
                    if schema_isEmpty sch then Inl InvalidDefinitionError
                    else initInstance env validator
                           \<lparr>defn = d, model = m, sections = [], fields_by_tag = Map.empty,
                            dirty = Map.empty, validationResults = (\<lambda>t. JUndefined)\<rparr>))"

section \<open>Collaborators and forms for the examples\<close>

text \<open>
  Modelled from the spec: \<open>hasValue\<close> and \<open>__blank\<close> of the common module, which is not
  among the sources. A value is held unless it is null or undefined; blank is null,
  undefined or the empty string.
\<close>

definition ex_hasValue :: "jsval \<Rightarrow> bool" where
  "ex_hasValue v \<longleftrightarrow> v \<noteq> JUndefined \<and> v \<noteq> JNull"

definition ex_blank :: "jsval \<Rightarrow> bool" where
  "ex_blank v \<longleftrightarrow> v = JUndefined \<or> v = JNull \<or> v = JStr []"

text \<open>
  Modelled from the spec: the severity scale of the validation service, which is not
  among the sources: OK, then WARNING, then ERROR.
\<close>

definition ex_severity :: "jsval \<Rightarrow> nat" where
  "ex_severity s = (if s = JStr ''ERROR'' then 2 else if s = JStr ''WARNING'' then 1 else 0)"

text \<open>
  A small expression service: an expression that is an array of two tags is the sum of
  their model values, any other expression is a constant; a condition that is an array of
  a tag and a number holds when the model value at the tag is greater, any other condition
  is a constant.
\<close>

definition ex_evalExpression :: "jsval \<Rightarrow> form \<Rightarrow> jsval" where
  "ex_evalExpression e st =
     (case e of
        JArr [JStr a, JStr b] \<Rightarrow>
          (case (getModelValue st a, getModelValue st b) of
             (JNum x, JNum y) \<Rightarrow> JNum (x + y)
           | _ \<Rightarrow> JNaN)
      | _ \<Rightarrow> e)"

definition ex_evalCondition :: "jsval \<Rightarrow> form \<Rightarrow> jsval" where
  "ex_evalCondition c st =
     (case c of
        JArr [JStr a, JNum n] \<Rightarrow>
          (case getModelValue st a of JNum x \<Rightarrow> JBool (n < x) | _ \<Rightarrow> JBool False)
      | _ \<Rightarrow> c)"

definition ex_env :: collaborators where
  "ex_env =
     \<lparr>evalCondition = ex_evalCondition,
      evalExpression = ex_evalExpression,
      onUpdate = (\<lambda>f current v. Inr v),
      hasValue = ex_hasValue,
      blank = ex_blank,
      isMoreSevereStatus = (\<lambda>a b. ex_severity b < ex_severity a),
      STATUS_OK = JStr ''OK'',
      getComponentTypeByField = (\<lambda>f ui. js_prop (js_prop ui ''component'') ''type''),
      getComponentConfig = (\<lambda>ty ct. ct),
      regexp_ok = (\<lambda>s. True),
      FormValidator = (\<lambda>st t. JObj [(''status'', JStr ''OK'')]),
      unsafe_number_string = show_int\<rparr>"

definition plain_props :: "nat \<Rightarrow> data_type \<Rightarrow> fprops" where
  "plain_props r ty =
     \<lparr>fref = r, ftype = Some ty, fid = JUndefined, calc = JUndefined, fdefinition = JUndefined,
      showCondition = JUndefined, defaultValueConditions = JUndefined, uiField = JUndefined,
      componentType = JUndefined, component = JUndefined, pattern = PatRaw JUndefined,
      parent = None\<rparr>"

definition leaf :: "nat \<Rightarrow> data_type \<Rightarrow> field" where
  "leaf r ty = Field (plain_props r ty) None None"

definition empty_form :: form where
  "empty_form =
     \<lparr>defn = \<lparr>schema = None, uiSchema = None, calcExpressionMap = None, calcTriggerMap = None,
              defaultValueTriggerMap = None\<rparr>,
      model = Map.empty, sections = [], fields_by_tag = Map.empty, dirty = Map.empty,
      validationResults = (\<lambda>t. JUndefined)\<rparr>"


text \<open>
  A composite field of a given type (object 1) with one child field \<open>child\<close> (object 2),
  and a state in which both the field, at tag \<open>own\<close>, and the child hold a value.
\<close>

definition ex_composite :: "data_type \<Rightarrow> field" where
  "ex_composite ty = Field (plain_props 1 ty) (Some [(''child'', leaf 2 STRING)]) None"

definition ex_held :: "jsval \<Rightarrow> form" where
  "ex_held v =
     empty_form\<lparr>model := [''own'' \<mapsto> JObj [(''value'', v)], ''child'' \<mapsto> JObj [(''value'', JStr ''c'')]],
                dirty := [1 \<mapsto> True, 2 \<mapsto> True]\<rparr>"

text \<open>
  A field \<open>choice\<close> with two options: option \<open>a\<close> owns the field \<open>ca\<close>, option \<open>b\<close> owns
  the BOOLEAN field \<open>cb\<close>, which owns the field \<open>g\<close>. In the first state \<open>ca\<close> and \<open>g\<close>
  hold a value and \<open>cb\<close> holds none; in the second all three hold a value.
\<close>

definition ex_option :: "nat \<Rightarrow> string \<Rightarrow> (tag \<times> field) list \<Rightarrow> foption" where
  "ex_option r i cs =
     FOption \<lparr>oref = r, oid = JStr i, odefaultValueConditions = JUndefined, oparent = None\<rparr>
       (Some cs)"

definition ex_choice :: field where
  "ex_choice =
     Field (plain_props 1 ARRAY) None
       (Some [ex_option 10 ''a'' [(''ca'', leaf 2 STRING)],
              ex_option 11 ''b''
                [(''cb'', Field (plain_props 3 BOOLEAN) (Some [(''g'', leaf 4 STRING)]) None)]])"

definition ex_choice_orphan :: form where
  "ex_choice_orphan =
     empty_form\<lparr>model := [''ca'' \<mapsto> JObj [(''value'', JStr ''x'')],
                          ''g'' \<mapsto> JObj [(''value'', JStr ''y'')]]\<rparr>"

definition ex_choice_full :: form where
  "ex_choice_full =
     empty_form\<lparr>model := [''ca'' \<mapsto> JObj [(''value'', JStr ''x'')],
                          ''cb'' \<mapsto> JObj [(''value'', JBool True)],
                          ''g'' \<mapsto> JObj [(''value'', JStr ''y'')]]\<rparr>"

text \<open>
  A field \<open>survey\<close> with two options: option \<open>a\<close> owns the field \<open>sa\<close>; option \<open>b\<close> owns
  the STRING fields \<open>sb\<close>, which owns the field \<open>g\<close>, and \<open>sc\<close>, which owns the field
  \<open>h\<close>. In the state \<open>sa\<close>, \<open>sb\<close>, \<open>g\<close> and \<open>h\<close> hold a value and \<open>sc\<close> holds none; the
  fields \<open>sb\<close> and \<open>h\<close> are dirty.
\<close>

definition ex_survey :: field where
  "ex_survey =
     Field (plain_props 1 ARRAY) None
       (Some [ex_option 10 ''a'' [(''sa'', leaf 2 STRING)],
              ex_option 11 ''b''
                [(''sb'', Field (plain_props 3 STRING) (Some [(''g'', leaf 4 STRING)]) None),
                 (''sc'', Field (plain_props 5 STRING) (Some [(''h'', leaf 6 STRING)]) None)]])"

definition ex_survey_state :: form where
  "ex_survey_state =
     empty_form\<lparr>model := [''sa'' \<mapsto> JObj [(''value'', JStr ''x'')],
                          ''sb'' \<mapsto> JObj [(''value'', JStr ''y'')],
                          ''g'' \<mapsto> JObj [(''value'', JStr ''z'')],
                          ''h'' \<mapsto> JObj [(''value'', JStr ''w'')]],
                dirty := [3 \<mapsto> True, 6 \<mapsto> True]\<rparr>"

text \<open>
  Validation results for four tags, a subsection with the fields \<open>a\<close>, \<open>b\<close>, \<open>c\<close>, and a
  subsection with the field \<open>d\<close>.
\<close>

definition ex_validated :: form where
  "ex_validated =
     empty_form\<lparr>validationResults :=
       (\<lambda>t. JObj [(''status'',
          if t = ''b'' then JStr ''ERROR''
          else if t = ''a'' \<or> t = ''c'' then JStr ''WARNING''
          else JStr ''fine'')])\<rparr>"

definition ex_subsection_abc :: form_subsection where
  "ex_subsection_abc =
     \<lparr>subsection_fields = Some [(''a'', leaf 1 STRING), (''b'', leaf 2 STRING), (''c'', leaf 3 STRING)]\<rparr>"

definition ex_subsection_d :: form_subsection where
  "ex_subsection_d = \<lparr>subsection_fields = Some [(''d'', leaf 4 STRING)]\<rparr>"

text \<open>
  The cascade of the specification: \<open>total\<close> is the sum of \<open>a\<close> and \<open>b\<close>, and
  \<open>totalRadio\<close> becomes \<open>high\<close> when \<open>total\<close> is greater than 10. The radio field takes
  its conditions from its two options; the first option's condition always holds.
\<close>

definition ex_source :: field where
  "ex_source = Field ((plain_props 1 NUMBER)\<lparr>fid := JStr ''id-a'', calc := JBool True\<rparr>) None None"

definition ex_radio :: field where
  "ex_radio =
     Field (plain_props 4 STRING) None
       (Some [FOption \<lparr>oref = 10, oid = JStr ''low'',
                       odefaultValueConditions =
                         JArr [JObj [(''condition'', JBool True), (''expression'', JStr ''low'')]],
                       oparent = None\<rparr> None,
              FOption \<lparr>oref = 11, oid = JStr ''high'',
                       odefaultValueConditions =
                         JArr [JObj [(''condition'', JArr [JStr ''total'', JNum 10]),
                                     (''expression'', JStr ''high'')]],
                       oparent = None\<rparr> None])"

definition ex_cascade :: form where
  "ex_cascade =
     \<lparr>defn = \<lparr>schema = None, uiSchema = None,
              calcExpressionMap = Some [''total'' \<mapsto> JArr [JStr ''a'', JStr ''b'']],
              calcTriggerMap = Some [''id-a'' \<mapsto> [''total''], ''id-b'' \<mapsto> [''total'']],
              defaultValueTriggerMap = Some [''total'' \<mapsto> [''totalRadio'']]\<rparr>,
      model = [''a'' \<mapsto> JObj [(''value'', JNum 5)], ''b'' \<mapsto> JObj [(''value'', JNum 7)]],
      sections = [],
      fields_by_tag = [''a'' \<mapsto> ex_source, ''total'' \<mapsto> leaf 3 NUMBER, ''totalRadio'' \<mapsto> ex_radio],
      dirty = Map.empty,
      validationResults = (\<lambda>t. JUndefined)\<rparr>"

text \<open>
  The radio field of the cascade with no conditions on its first option: only the option
  \<open>high\<close> carries \<open>defaultValueConditions\<close>. In the state \<open>total\<close> is 12, so the guard
  of the one condition holds.
\<close>

definition ex_radio_partial :: field where
  "ex_radio_partial =
     Field (plain_props 4 STRING) None
       (Some [FOption \<lparr>oref = 10, oid = JStr ''low'', odefaultValueConditions = JUndefined,
                       oparent = None\<rparr> None,
              FOption \<lparr>oref = 11, oid = JStr ''high'',
                       odefaultValueConditions =
                         JArr [JObj [(''condition'', JArr [JStr ''total'', JNum 10]),
                                     (''expression'', JStr ''high'')]],
                       oparent = None\<rparr> None])"

definition ex_partial :: form where
  "ex_partial =
     ex_cascade\<lparr>model := (model ex_cascade)(''total'' \<mapsto> JObj [(''value'', JNum 12)]),
                fields_by_tag := (fields_by_tag ex_cascade)(''totalRadio'' \<mapsto> ex_radio_partial)\<rparr>"

text \<open>
  Definitions for construction. The first has two sections out of order and a
  \<open>uiSchema\<close> entry for \<open>name\<close>. In the second the field \<open>a\<close> owns a child field with the
  same tag \<open>a\<close>; in the third an option of the field \<open>a\<close> owns a field \<open>a\<close>; in the fourth
  two subsections each hold a field \<open>a\<close>.
\<close>

definition ex_schema_of :: "form_section list \<Rightarrow> form_definition" where
  "ex_schema_of secs =
     \<lparr>schema = Some \<lparr>schema_sections = Some secs, schema_other = []\<rparr>,
      uiSchema = Some [''name'' \<mapsto> [(''component'', JObj [(''type'', JStr ''text'')])]],
      calcExpressionMap = None, calcTriggerMap = None, defaultValueTriggerMap = None\<rparr>"

definition ex_section :: "int \<Rightarrow> (tag \<times> field) list \<Rightarrow> form_section" where
  "ex_section n fs = \<lparr>sortOrder = Some n, subsections = Some [\<lparr>subsection_fields = Some fs\<rparr>]\<rparr>"

definition ex_definition :: form_definition where
  "ex_definition =
     ex_schema_of [ex_section 2 [(''choice'', ex_choice)], ex_section 1 [(''name'', leaf 7 STRING)]]"

definition ex_nested_duplicate :: form_definition where
  "ex_nested_duplicate =
     ex_schema_of
       [ex_section 1 [(''a'', Field (plain_props 1 STRING) (Some [(''a'', leaf 2 STRING)]) None)]]"

definition ex_option_duplicate :: form_definition where
  "ex_option_duplicate =
     ex_schema_of
       [ex_section 1
          [(''a'', Field (plain_props 1 STRING) None
                     (Some [ex_option 10 ''x'' [(''a'', leaf 2 STRING)]]))]]"

definition ex_sibling_duplicate :: form_definition where
  "ex_sibling_duplicate =
     ex_schema_of [ex_section 1 [(''a'', leaf 1 STRING)], ex_section 2 [(''a'', leaf 2 STRING)]]"

text \<open>The tag index of an instance read as object identities, and the outcome of a construction.\<close>

definition index_ref :: "error + form \<Rightarrow> tag \<Rightarrow> nat option" where
  "index_ref r t =
     (case r of
        Inl e \<Rightarrow> None
      | Inr inst \<Rightarrow> (case fields_by_tag inst t of None \<Rightarrow> None | Some f \<Rightarrow> Some (fref (props f))))"

definition raised :: "error + 'a \<Rightarrow> error option" where
  "raised r = (case r of Inl e \<Rightarrow> Some e | Inr x \<Rightarrow> None)"

section \<open>The example collaborators, field by field\<close>

lemma ex_env_sel:
  "evalCondition ex_env = ex_evalCondition"
  "evalExpression ex_env = ex_evalExpression"
  "onUpdate ex_env = (\<lambda>f current v. Inr v)"
  "hasValue ex_env = ex_hasValue"
  "blank ex_env = ex_blank"
  "isMoreSevereStatus ex_env = (\<lambda>a b. ex_severity b < ex_severity a)"
  "STATUS_OK ex_env = JStr ''OK''"
  "getComponentTypeByField ex_env = (\<lambda>f ui. js_prop (js_prop ui ''component'') ''type'')"
  "getComponentConfig ex_env = (\<lambda>ty ct. ct)"
  "regexp_ok ex_env = (\<lambda>s. True)"
  "FormValidator ex_env = (\<lambda>st t. JObj [(''status'', JStr ''OK'')])"
  "unsafe_number_string ex_env = show_int"
  by (simp_all add: ex_env_def)

lemma ex_clone_leaf: "clone_field (leaf r ty) = leaf r ty"
  by (simp add: leaf_def clone_props_def plain_props_def)

lemma ex_decorate_leaf:
  "\<not> already_exists st t \<Longrightarrow>
   decorateField ex_env (leaf r ty) t JUndefined st =
     Inr (Field ((plain_props r ty)
             \<lparr>uiField := (case getUiSchemaField st t of None \<Rightarrow> JObj [] | Some kvs \<Rightarrow> JObj kvs),
              componentType := js_prop (js_prop
                 (case getUiSchemaField st t of None \<Rightarrow> JObj [] | Some kvs \<Rightarrow> JObj kvs)
                 ''component'') ''type'',
              component := js_prop (js_prop
                 (case getUiSchemaField st t of None \<Rightarrow> JObj [] | Some kvs \<Rightarrow> JObj kvs)
                 ''component'') ''type''\<rparr>) None None,
          st\<lparr>fields_by_tag := (fields_by_tag st)(t \<mapsto>
             Field ((plain_props r ty)
             \<lparr>uiField := (case getUiSchemaField st t of None \<Rightarrow> JObj [] | Some kvs \<Rightarrow> JObj kvs),
              componentType := js_prop (js_prop
                 (case getUiSchemaField st t of None \<Rightarrow> JObj [] | Some kvs \<Rightarrow> JObj kvs)
                 ''component'') ''type'',
              component := js_prop (js_prop
                 (case getUiSchemaField st t of None \<Rightarrow> JObj [] | Some kvs \<Rightarrow> JObj kvs)
                 ''component'') ''type''\<rparr>) None None)\<rparr>)"
  by (simp add: leaf_def decorateProps_def ex_env_sel plain_props_def)

section \<open>What the clearing functions change\<close>


lemma only_clears_refl: "only_clears st st"
  by (simp add: only_clears_def)

lemma only_clears_trans: "only_clears a b \<Longrightarrow> only_clears b c \<Longrightarrow> only_clears a c"
  unfolding only_clears_def
  by (metis)

lemma only_clears_store: "only_clears st (storeValue t JUndefined p st)"
  by (simp add: only_clears_def storeValue_def)

lemma clears_only:
  "setModelValue env t v f st = Inr st' \<Longrightarrow> only_clears (storeValue t v (props f) st) st'"
  "clearOptionChildren env opts v st = Inr st' \<Longrightarrow> only_clears st st'"
  "clearFields env cs st = Inr st' \<Longrightarrow> only_clears st st'"
proof (induction env t v f st and env opts v st and env cs st arbitrary: st' and st' and st'
    rule: setModelValue_clearOptionChildren_clearFields.induct)
  case (1 env t v p cs os st)
  then show ?case
    by (auto split: option.splits sum.splits if_splits intro: only_clears_refl)
       (blast intro: only_clears_trans)+
next
  case (2 env v st)
  then show ?case by (simp add: only_clears_refl)
next
  case (3 env q ofs opts v st)
  then show ?case
    by (auto split: option.splits sum.splits if_splits intro: only_clears_refl)
       (blast intro: only_clears_trans)+
next
  case (4 env st)
  then show ?case by (simp add: only_clears_refl)
next
  case (5 env t f rest st)
  then show ?case
    by (auto split: option.splits sum.splits if_splits intro: only_clears_refl)
       (blast intro: only_clears_trans only_clears_store)+
qed


lemma same_outside_refl: "same_outside T R st st"
  by (simp add: same_outside_def)

lemma same_outside_mono:
  "same_outside T R a b \<Longrightarrow> T \<subseteq> T' \<Longrightarrow> R \<subseteq> R' \<Longrightarrow> same_outside T' R' a b"
  unfolding same_outside_def by blast

lemma same_outside_comp:
  "same_outside T R a b \<Longrightarrow> same_outside T' R' b c \<Longrightarrow> same_outside (T \<union> T') (R \<union> R') a c"
  unfolding same_outside_def by simp

lemma same_outside_store:
  "same_outside {t} {fref p} st (storeValue t v p st)"
  by (simp add: same_outside_def storeValue_def)

lemma footprint:
  "setModelValue env t v f st = Inr st' \<Longrightarrow>
     same_outside (set (field_tags f)) (set (field_refs f)) (storeValue t v (props f) st) st'"
  "clearOptionChildren env opts v st = Inr st' \<Longrightarrow>
     same_outside (set (options_tags opts)) (set (options_refs opts)) st st'"
  "clearFields env cs st = Inr st' \<Longrightarrow>
     same_outside (set (fields_tags cs)) (set (fields_refs cs)) st st'"
proof (induction env t v f st and env opts v st and env cs st arbitrary: st' and st' and st'
    rule: setModelValue_clearOptionChildren_clearFields.induct)
  case (1 env t v p cs os st)
  let ?s1 = "storeValue t v p st"
  obtain s2 where s2: "(case os of None \<Rightarrow> Inr ?s1
      | Some opts \<Rightarrow> clearOptionChildren env opts v ?s1) = Inr s2"
    and rest: "(case cs of None \<Rightarrow> Inr s2
      | Some children \<Rightarrow> if clears_children env (ftype p) v
          then clearFields env children s2 else Inr s2) = Inr st'"
    using "1.prems" by (auto split: sum.splits)
  have a: "same_outside (set (case os of None \<Rightarrow> [] | Some opts \<Rightarrow> options_tags opts))
      (set (case os of None \<Rightarrow> [] | Some opts \<Rightarrow> options_refs opts)) ?s1 s2"
    using s2 "1.IH"(1) by (auto split: option.splits intro: same_outside_refl)
  have b: "same_outside (set (case cs of None \<Rightarrow> [] | Some c \<Rightarrow> fields_tags c))
      (set (case cs of None \<Rightarrow> [] | Some c \<Rightarrow> fields_refs c)) s2 st'"
  proof (cases cs)
    case None
    then show ?thesis using rest by (simp add: same_outside_refl)
  next
    case (Some children)
    show ?thesis
    proof (cases "clears_children env (ftype p) v")
      case True
      then show ?thesis using rest Some "1.IH"(2)[OF s2 Some True] by simp
    next
      case False
      then have "st' = s2" using rest Some by simp
      then show ?thesis by (simp add: same_outside_def)
    qed
  qed
  from same_outside_comp[OF a b] show ?case by simp
next
  case (2 env v st)
  then show ?case by (simp add: same_outside_refl)
next
  case (3 env q ofs opts v st)
  show ?case
  proof (cases ofs)
    case None
    then show ?thesis using 3 by (auto elim: same_outside_mono)
  next
    case (Some children)
    then obtain s where s: "toString env (oid q) = Inr s"
      using "3.prems" by (auto split: sum.splits)
    show ?thesis
    proof (cases "js_includes v s")
      case True
      then have "clearOptionChildren env opts v st = Inr st'"
        using "3.prems" Some s by simp
      from "3.IH"(4)[OF Some s _ this] True
      show ?thesis by (auto elim: same_outside_mono)
    next
      case False
      then obtain s1 where s1: "clearFields env children st = Inr s1"
        and r: "clearOptionChildren env opts v s1 = Inr st'"
        using "3.prems" Some s by (auto split: sum.splits)
      from "3.IH"(2)[OF Some s False s1] "3.IH"(3)[OF Some s False s1 r]
      have "same_outside (set (fields_tags children) \<union> set (options_tags opts))
         (set (fields_refs children) \<union> set (options_refs opts)) st st'"
        by (rule same_outside_comp)
      then show ?thesis using Some by simp
    qed
  qed
next
  case (4 env st)
  then show ?case by (simp add: same_outside_refl)
next
  case (5 env t f rest st)
  show ?case
  proof (cases "hasValue env (getModelValue st t)")
    case False
    then have "clearFields env rest st = Inr st'" using "5.prems" by simp
    from "5.IH"(3)[OF False this] show ?thesis by (auto elim: same_outside_mono)
  next
    case True
    then obtain s1 where s1: "setModelValue env t JUndefined f st = Inr s1"
      and r: "clearFields env rest s1 = Inr st'"
      using "5.prems" by (auto split: sum.splits)
    have "same_outside ({t} \<union> set (field_tags f)) ({fref (props f)} \<union> set (field_refs f)) st s1"
      using same_outside_comp[OF same_outside_store "5.IH"(1)[OF True s1]] .
    from same_outside_comp[OF this "5.IH"(2)[OF True s1 r]]
    show ?thesis by (auto elim: same_outside_mono)
  qed
qed


lemma only_clears_None: "only_clears a b \<Longrightarrow> model a k = None \<Longrightarrow> model b k = None"
proof -
  assume oc: "only_clears a b" and n: "model a k = None"
  from oc have "model b k = None \<or> model b k = model a k" by (simp add: only_clears_def)
  with n show ?thesis by auto
qed

lemma only_clears_value:
  "only_clears a b \<Longrightarrow> model b k = None \<or> getModelValue b k = getModelValue a k"
proof -
  assume "only_clears a b"
  then have "model b k = None \<or> model b k = model a k" by (simp add: only_clears_def)
  then show ?thesis by (auto simp: getModelValue_def)
qed

lemma only_clears_dirty: "only_clears a b \<Longrightarrow> dirty a r = Some False \<Longrightarrow> dirty b r = Some False"
proof -
  assume oc: "only_clears a b" and n: "dirty a r = Some False"
  from oc have "dirty b r = dirty a r \<or> dirty b r = Some False" by (simp add: only_clears_def)
  with n show ?thesis by auto
qed

lemma setModelValue_undefined:
  assumes "setModelValue env t JUndefined f st = Inr st'"
  shows "model st' t = None" and "dirty st' (fref (props f)) = Some False"
    and "only_clears st st'"
proof -
  let ?s1 = "storeValue t JUndefined (props f) st"
  have oc: "only_clears ?s1 st'" using assms by (rule clears_only(1))
  have "model ?s1 t = None" by (simp add: storeValue_def)
  with oc show "model st' t = None" by (rule only_clears_None)
  have "dirty ?s1 (fref (props f)) = Some False" by (simp add: storeValue_def)
  with oc show "dirty st' (fref (props f)) = Some False" by (rule only_clears_dirty)
  from only_clears_store oc show "only_clears st st'" by (rule only_clears_trans)
qed

lemma getModelValue_None: "model st k = None \<Longrightarrow> getModelValue st k = JUndefined"
  by (simp add: getModelValue_def)

lemma getModelValue_modelValue:
  "model st k = Some (modelValue v d) \<Longrightarrow> getModelValue st k = v"
  by (simp add: getModelValue_def modelValue_def)

lemma clearFields_holds_none:
  "clearFields env cs st = Inr st' \<Longrightarrow> \<not> hasValue env JUndefined \<Longrightarrow> (c, ch) \<in> set cs
   \<Longrightarrow> \<not> hasValue env (getModelValue st' c)"
proof (induction cs arbitrary: st)
  case Nil
  then show ?case by simp
next
  case (Cons a rest)
  obtain t f where a: "a = (t, f)" by (cases a)
  show ?case
  proof (cases "hasValue env (getModelValue st t)")
    case True
    then obtain s1 where s1: "setModelValue env t JUndefined f st = Inr s1"
      and r: "clearFields env rest s1 = Inr st'"
      using Cons.prems(1) a by (auto split: sum.splits)
    show ?thesis
    proof (cases "(c, ch) \<in> set rest")
      case True
      then show ?thesis using Cons.IH[OF r Cons.prems(2)] by simp
    next
      case False
      then have "c = t" using Cons.prems(3) a by simp
      moreover have "model s1 t = None" using s1 by (rule setModelValue_undefined(1))
      moreover have "only_clears s1 st'" using r by (rule clears_only(3))
      ultimately have "model st' c = None" by (simp add: only_clears_None)
      then show ?thesis using Cons.prems(2) by (simp add: getModelValue_None)
    qed
  next
    case nv: False
    then have r: "clearFields env rest st = Inr st'" using Cons.prems(1) a by simp
    show ?thesis
    proof (cases "(c, ch) \<in> set rest")
      case True
      then show ?thesis using Cons.IH[OF r Cons.prems(2)] by simp
    next
      case False
      then have ct: "c = t" using Cons.prems(3) a by simp
      have "only_clears st st'" using r by (rule clears_only(3))
      from only_clears_value[OF this, of c] show ?thesis
        using nv ct Cons.prems(2) by (auto simp: getModelValue_None)
    qed
  qed
qed

lemma clearFields_deletes_held:
  "clearFields env cs st = Inr st' \<Longrightarrow> (c, ch) \<in> set cs
   \<Longrightarrow> hasValue env (getModelValue st c) \<Longrightarrow> model st' c = None"
proof (induction cs arbitrary: st)
  case Nil
  then show ?case by simp
next
  case (Cons a rest)
  obtain t f where a: "a = (t, f)" by (cases a)
  show ?case
  proof (cases "hasValue env (getModelValue st t)")
    case True
    then obtain s1 where s1: "setModelValue env t JUndefined f st = Inr s1"
      and r: "clearFields env rest s1 = Inr st'"
      using Cons.prems(1) a by (auto split: sum.splits)
    have oc1: "only_clears st s1" using s1 by (rule setModelValue_undefined(3))
    have oc2: "only_clears s1 st'" using r by (rule clears_only(3))
    show ?thesis
    proof (cases "c = t")
      case True
      have "model s1 t = None" using s1 by (rule setModelValue_undefined(1))
      then show ?thesis using oc2 True by (simp add: only_clears_None)
    next
      case False
      then have mem: "(c, ch) \<in> set rest" using Cons.prems(2) a by simp
      from only_clears_value[OF oc1, of c] show ?thesis
      proof
        assume "model s1 c = None"
        then show ?thesis using oc2 by (simp add: only_clears_None)
      next
        assume "getModelValue s1 c = getModelValue st c"
        then have "hasValue env (getModelValue s1 c)" using Cons.prems(3) by simp
        from Cons.IH[OF r mem this] show ?thesis .
      qed
    qed
  next
    case nv: False
    then have r: "clearFields env rest st = Inr st'" using Cons.prems(1) a by simp
    have "c \<noteq> t" using nv Cons.prems(3) by auto
    then have "(c, ch) \<in> set rest" using Cons.prems(2) a by simp
    from Cons.IH[OF r this Cons.prems(3)] show ?thesis .
  qed
qed


text \<open>The three functions return whenever every id they stringify is there.\<close>

lemma clearing_returns:
  "field_ids_ok f \<Longrightarrow> \<exists>st'. setModelValue env t v f st = Inr st'"
  "options_ids_ok opts \<Longrightarrow> \<exists>st'. clearOptionChildren env opts v st = Inr st'"
  "fields_ids_ok cs \<Longrightarrow> \<exists>st'. clearFields env cs st = Inr st'"
proof (induction env t v f st and env opts v st and env cs st
    rule: setModelValue_clearOptionChildren_clearFields.induct)
  case (1 env t v p cs os st)
  have "\<exists>s2. (case os of None \<Rightarrow> Inr (storeValue t v p st)
       | Some opts \<Rightarrow> clearOptionChildren env opts v (storeValue t v p st)) = Inr s2"
    using "1.prems" "1.IH"(1) by (cases os) auto
  then obtain s2 where s2: "(case os of None \<Rightarrow> Inr (storeValue t v p st)
       | Some opts \<Rightarrow> clearOptionChildren env opts v (storeValue t v p st)) = Inr s2" ..
  show ?case
  proof (cases cs)
    case None
    with s2 show ?thesis by simp
  next
    case (Some children)
    show ?thesis
    proof (cases "clears_children env (ftype p) v")
      case True
      from "1.prems" Some have "fields_ids_ok children" by simp
      from "1.IH"(2)[OF s2 Some True this] s2 Some True show ?thesis by simp
    next
      case False
      with s2 Some show ?thesis by simp
    qed
  qed
next
  case (2 env v st)
  then show ?case by simp
next
  case (3 env q ofs opts v st)
  show ?case
  proof (cases ofs)
    case None
    with "3.prems" "3.IH"(1) show ?thesis by simp
  next
    case (Some children)
    with "3.prems" have s: "toString env (oid q) = Inr (js_String env (oid q))"
      and okc: "fields_ids_ok children" and oko: "options_ids_ok opts"
      by (simp_all add: toString_def)
    show ?thesis
    proof (cases "js_includes v (js_String env (oid q))")
      case True
      from "3.IH"(4)[OF Some s _ oko] True Some s show ?thesis by simp
    next
      case False
      from "3.IH"(2)[OF Some s False okc] obtain s1 where
        s1: "clearFields env children st = Inr s1" ..
      from "3.IH"(3)[OF Some s False s1 oko] s1 Some s False show ?thesis by simp
    qed
  qed
next
  case (4 env st)
  then show ?case by simp
next
  case (5 env t f rest st)
  from "5.prems" have okf: "field_ids_ok f" and okr: "fields_ids_ok rest" by simp_all
  show ?case
  proof (cases "hasValue env (getModelValue st t)")
    case True
    from "5.IH"(1)[OF True okf] obtain s1 where
      s1: "setModelValue env t JUndefined f st = Inr s1" ..
    from "5.IH"(2)[OF True s1 okr] s1 True show ?thesis by simp
  next
    case False
    from "5.IH"(3)[OF False okr] False show ?thesis by simp
  qed
qed


section \<open>Storing and clearing a value\<close>

text \<open>
  C4. When \<open>setModelValue(tag, undefined, field)\<close> returns, the model has no entry for
  the tag, the field's dirty flag is false and \<open>getModelValue(tag)\<close> is undefined. For
  any other value the call first stores at the tag the object \<open>{value}\<close>, with
  \<open>fieldType\<close> and \<open>definitionId\<close> exactly when \<open>field.definition\<close> is truthy, and sets
  the dirty flag; what follows only clears. So when the call returns (the tag and the
  field object not repeated beneath the field), the model holds that object at the tag,
  the dirty flag is true and \<open>getModelValue(tag)\<close> is the value. In any state
  \<open>getModelValue\<close> answers undefined where the model has no entry and the entry itself
  where it is falsy.
\<close>

theorem setModelValue_entry_and_dirty:
  assumes "setModelValue env t v f st = Inr st'"
  shows "(v = JUndefined \<longrightarrow>
            model st' t = None \<and> dirty st' (fref (props f)) = Some False \<and>
            getModelValue st' t = JUndefined) \<and>
         (v \<noteq> JUndefined \<longrightarrow>
            model (storeValue t v (props f) st) t =
              Some (if truthy (fdefinition (props f))
                    then JObj [(''value'', v),
                               (''fieldType'', js_prop (fdefinition (props f)) ''type''),
                               (''definitionId'', js_prop (fdefinition (props f)) ''definitionId'')]
                    else JObj [(''value'', v)]) \<and>
            dirty (storeValue t v (props f) st) (fref (props f)) = Some True \<and>
            only_clears (storeValue t v (props f) st) st') \<and>
         (v \<noteq> JUndefined \<and> t \<notin> set (field_tags f) \<and> fref (props f) \<notin> set (field_refs f) \<longrightarrow>
            model st' t =
              Some (if truthy (fdefinition (props f))
                    then JObj [(''value'', v),
                               (''fieldType'', js_prop (fdefinition (props f)) ''type''),
                               (''definitionId'', js_prop (fdefinition (props f)) ''definitionId'')]
                    else JObj [(''value'', v)]) \<and>
            dirty st' (fref (props f)) = Some True \<and>
            getModelValue st' t = v) \<and>
         (\<forall>s k. model s k = None \<longrightarrow> getModelValue s k = JUndefined) \<and>
         (\<forall>s k m. model s k = Some m \<and> \<not> truthy m \<longrightarrow> getModelValue s k = m)"
proof -
  let ?s1 = "storeValue t v (props f) st"
  let ?entry = "Some (if truthy (fdefinition (props f))
                    then JObj [(''value'', v),
                               (''fieldType'', js_prop (fdefinition (props f)) ''type''),
                               (''definitionId'', js_prop (fdefinition (props f)) ''definitionId'')]
                    else JObj [(''value'', v)])"
  have A: "v = JUndefined \<longrightarrow>
            model st' t = None \<and> dirty st' (fref (props f)) = Some False \<and>
            getModelValue st' t = JUndefined"
  proof
    assume v: "v = JUndefined"
    with assms have a: "setModelValue env t JUndefined f st = Inr st'" by simp
    from a have "model st' t = None" by (rule setModelValue_undefined(1))
    moreover from this have "getModelValue st' t = JUndefined" by (rule getModelValue_None)
    moreover from a have "dirty st' (fref (props f)) = Some False"
      by (rule setModelValue_undefined(2))
    ultimately show "model st' t = None \<and> dirty st' (fref (props f)) = Some False \<and>
            getModelValue st' t = JUndefined" by simp
  qed
  have m1: "v \<noteq> JUndefined \<Longrightarrow> model ?s1 t = ?entry"
    and d1: "v \<noteq> JUndefined \<Longrightarrow> dirty ?s1 (fref (props f)) = Some True"
    by (simp_all add: storeValue_def modelValue_def)
  have B: "v \<noteq> JUndefined \<longrightarrow>
      model ?s1 t = ?entry \<and> dirty ?s1 (fref (props f)) = Some True \<and> only_clears ?s1 st'"
    using m1 d1 clears_only(1)[OF assms] by simp
  have C: "v \<noteq> JUndefined \<and> t \<notin> set (field_tags f) \<and> fref (props f) \<notin> set (field_refs f) \<longrightarrow>
      model st' t = ?entry \<and> dirty st' (fref (props f)) = Some True \<and> getModelValue st' t = v"
  proof
    assume h: "v \<noteq> JUndefined \<and> t \<notin> set (field_tags f) \<and> fref (props f) \<notin> set (field_refs f)"
    from assms have so: "same_outside (set (field_tags f)) (set (field_refs f)) ?s1 st'"
      by (rule footprint(1))
    from so h have m: "model st' t = model ?s1 t"
      and d: "dirty st' (fref (props f)) = dirty ?s1 (fref (props f))"
      by (simp_all add: same_outside_def)
    from h have "model ?s1 t = Some (modelValue v (fdefinition (props f)))"
      by (simp add: storeValue_def)
    with m have "getModelValue st' t = v" by (simp add: getModelValue_modelValue)
    with m d m1 d1 h
    show "model st' t = ?entry \<and> dirty st' (fref (props f)) = Some True \<and> getModelValue st' t = v"
      by simp
  qed
  have D: "\<forall>s k. model s k = None \<longrightarrow> getModelValue s k = JUndefined"
    by (simp add: getModelValue_None)
  have E: "\<forall>s k m. model s k = Some m \<and> \<not> truthy m \<longrightarrow> getModelValue s k = m"
    by (simp add: getModelValue_def)
  from A B C D E show ?thesis by (intro conjI)
qed

theorem setModelValue_entry_and_dirty_witness:
  "setModelValue ex_env ''a'' (JStr ''x'')
      (Field ((plain_props 1 STRING)\<lparr>fdefinition := JObj [(''type'', JStr ''goal''), (''definitionId'', JNum 7)]\<rparr>)
         None None) empty_form
     = Inr (storeValue ''a'' (JStr ''x'')
         ((plain_props 1 STRING)\<lparr>fdefinition := JObj [(''type'', JStr ''goal''), (''definitionId'', JNum 7)]\<rparr>)
         empty_form) \<and>
   model (storeValue ''a'' (JStr ''x'')
         ((plain_props 1 STRING)\<lparr>fdefinition := JObj [(''type'', JStr ''goal''), (''definitionId'', JNum 7)]\<rparr>)
         empty_form) ''a''
     = Some (JObj [(''value'', JStr ''x''), (''fieldType'', JStr ''goal''), (''definitionId'', JNum 7)]) \<and>
   dirty (storeValue ''a'' (JStr ''x'')
         ((plain_props 1 STRING)\<lparr>fdefinition := JObj [(''type'', JStr ''goal''), (''definitionId'', JNum 7)]\<rparr>)
         empty_form) 1 = Some True \<and>
   setModelValue ex_env ''a'' JUndefined (leaf 1 STRING)
      (storeValue ''a'' (JStr ''x'') (plain_props 1 STRING) empty_form)
     = Inr (storeValue ''a'' JUndefined (plain_props 1 STRING)
         (storeValue ''a'' (JStr ''x'') (plain_props 1 STRING) empty_form)) \<and>
   model (storeValue ''a'' JUndefined (plain_props 1 STRING)
         (storeValue ''a'' (JStr ''x'') (plain_props 1 STRING) empty_form)) ''a'' = None \<and>
   dirty (storeValue ''a'' JUndefined (plain_props 1 STRING)
         (storeValue ''a'' (JStr ''x'') (plain_props 1 STRING) empty_form)) 1 = Some False"
proof -
  let ?p = "(plain_props 1 STRING)\<lparr>fdefinition := JObj [(''type'', JStr ''goal''), (''definitionId'', JNum 7)]\<rparr>"
  have a: "setModelValue ex_env ''a'' (JStr ''x'') (Field ?p None None) empty_form
      = Inr (storeValue ''a'' (JStr ''x'') ?p empty_form)"
    by simp
  have b: "setModelValue ex_env ''a'' JUndefined (leaf 1 STRING)
      (storeValue ''a'' (JStr ''x'') (plain_props 1 STRING) empty_form)
     = Inr (storeValue ''a'' JUndefined (plain_props 1 STRING)
         (storeValue ''a'' (JStr ''x'') (plain_props 1 STRING) empty_form))"
    by (simp add: leaf_def)
  show ?thesis
    using a b setModelValue_entry_and_dirty[OF a] setModelValue_entry_and_dirty[OF b]
    by (simp add: plain_props_def leaf_def)
qed


lemma option_step:
  "(case os of None \<Rightarrow> Inr s | Some opts \<Rightarrow> clearOptionChildren env opts v s)
     = clearOptionChildren env (opt_list os) v s"
  by (cases os) simp_all

lemma setModelValue_steps:
  "setModelValue env t v (Field p cs os) st =
     (case clearOptionChildren env (opt_list os) v (storeValue t v p st) of
        Inl e \<Rightarrow> Inl e
      | Inr s2 \<Rightarrow>
          if cs \<noteq> None \<and> clears_children env (ftype p) v then clearFields env (opt_list cs) s2
          else Inr s2)"
  by (cases os; cases cs) (simp_all split: sum.splits)

lemma clears_children_eq: "clears_children env ty v = empty_for_type env ty v"
  by (cases "(env, ty, v)" rule: clears_children.cases) (auto simp: empty_for_type_def)

lemma only_clears_holds_none:
  assumes "only_clears a b" and "\<not> hasValue env JUndefined"
    and "\<not> hasValue env (getModelValue a c)"
  shows "\<not> hasValue env (getModelValue b c)"
  using only_clears_value[OF assms(1), of c] assms(2,3) by (auto simp: getModelValue_None)

section \<open>Clearing child fields\<close>

text \<open>
  C2. For a field with child \<open>fields\<close>, \<open>setModelValue\<close> clears the child fields exactly
  when the value is empty for the field's type (false for BOOLEAN, not-a-number for
  NUMBER, empty for ARRAY, blank otherwise). When it is, a call that returns has done
  what it does for the same field without child fields and then run \<open>__clearFields\<close> on
  the child fields, and afterwards no child field holds a value. When it is not, the call
  does exactly what it does for the same field without child fields, and (tags distinct)
  the model is unchanged at every tag beneath the child fields.
\<close>

theorem setModelValue_child_clear:
  assumes "setModelValue env t v (Field p (Some cs) os) st = Inr st'"
  shows "(empty_for_type env (ftype p) v \<longrightarrow>
            (\<exists>s. setModelValue env t v (Field p None os) st = Inr s \<and>
                 clearFields env cs s = Inr st')) \<and>
         (empty_for_type env (ftype p) v \<and> \<not> hasValue env JUndefined \<longrightarrow>
            (\<forall>c \<in> fst ` set cs. \<not> hasValue env (getModelValue st' c))) \<and>
         (\<not> empty_for_type env (ftype p) v \<longrightarrow>
            setModelValue env t v (Field p None os) st = Inr st') \<and>
         (\<not> empty_for_type env (ftype p) v \<and> t \<notin> set (fields_tags cs) \<and>
          set (fields_tags cs) \<inter> set (options_tags (opt_list os)) = {} \<longrightarrow>
            (\<forall>k \<in> set (fields_tags cs). model st' k = model st k))"
proof (intro conjI impI)
  note steps = assms[unfolded setModelValue_steps clears_children_eq]
  assume "empty_for_type env (ftype p) v"
  then show "\<exists>s. setModelValue env t v (Field p None os) st = Inr s \<and>
      clearFields env cs s = Inr st'"
    unfolding setModelValue_steps using steps by (auto split: sum.splits)
next
  note steps = assms[unfolded setModelValue_steps clears_children_eq]
  assume h: "empty_for_type env (ftype p) v \<and> \<not> hasValue env JUndefined"
  then obtain s2 where "clearFields env cs s2 = Inr st'"
    using steps by (auto split: sum.splits)
  then show "\<forall>c \<in> fst ` set cs. \<not> hasValue env (getModelValue st' c)"
    using h by (auto dest: clearFields_holds_none)
next
  note steps = assms[unfolded setModelValue_steps clears_children_eq]
  assume "\<not> empty_for_type env (ftype p) v"
  then show "setModelValue env t v (Field p None os) st = Inr st'"
    unfolding setModelValue_steps using steps by (auto split: sum.splits)
next
  assume h: "\<not> empty_for_type env (ftype p) v \<and> t \<notin> set (fields_tags cs) \<and>
    set (fields_tags cs) \<inter> set (options_tags (opt_list os)) = {}"
  then have "clearOptionChildren env (opt_list os) v (storeValue t v p st) = Inr st'"
    using assms[unfolded setModelValue_steps clears_children_eq] by (auto split: sum.splits)
  then have "same_outside (set (options_tags (opt_list os))) (set (options_refs (opt_list os)))
      (storeValue t v p st) st'"
    by (rule footprint(2))
  then have "\<forall>k. k \<notin> set (options_tags (opt_list os)) \<longrightarrow> model st' k = model (storeValue t v p st) k"
    by (simp add: same_outside_def)
  moreover have "\<forall>k. k \<noteq> t \<longrightarrow> model (storeValue t v p st) k = model st k"
    by (simp add: storeValue_def)
  ultimately show "\<forall>k \<in> set (fields_tags cs). model st' k = model st k"
    using h by (metis disjoint_iff)
qed

theorem setModelValue_child_clear_witness:
  "setModelValue ex_env ''own'' (JBool False) (ex_composite BOOLEAN) (ex_held (JBool True))
     = Inr (storeValue ''child'' JUndefined (plain_props 2 STRING)
              (storeValue ''own'' (JBool False) (plain_props 1 BOOLEAN) (ex_held (JBool True)))) \<and>
   empty_for_type ex_env (Some BOOLEAN) (JBool False) \<and>
   hasValue ex_env (getModelValue (ex_held (JBool True)) ''child'') \<and>
   \<not> hasValue ex_env (getModelValue
        (storeValue ''child'' JUndefined (plain_props 2 STRING)
              (storeValue ''own'' (JBool False) (plain_props 1 BOOLEAN) (ex_held (JBool True)))) ''child'') \<and>
   setModelValue ex_env ''own'' (JBool True) (ex_composite BOOLEAN) (ex_held (JBool False))
     = Inr (storeValue ''own'' (JBool True) (plain_props 1 BOOLEAN) (ex_held (JBool False))) \<and>
   \<not> empty_for_type ex_env (Some BOOLEAN) (JBool True) \<and>
   model (storeValue ''own'' (JBool True) (plain_props 1 BOOLEAN) (ex_held (JBool False))) ''child''
     = Some (JObj [(''value'', JStr ''c'')])"
proof -
  have a: "setModelValue ex_env ''own'' (JBool False)
      (Field (plain_props 1 BOOLEAN) (Some [(''child'', leaf 2 STRING)]) None) (ex_held (JBool True))
     = Inr (storeValue ''child'' JUndefined (plain_props 2 STRING)
              (storeValue ''own'' (JBool False) (plain_props 1 BOOLEAN) (ex_held (JBool True))))"
    by (simp add: leaf_def ex_held_def getModelValue_def storeValue_def ex_env_def
        ex_hasValue_def empty_form_def plain_props_def)
  have b: "setModelValue ex_env ''own'' (JBool True)
      (Field (plain_props 1 BOOLEAN) (Some [(''child'', leaf 2 STRING)]) None) (ex_held (JBool False))
     = Inr (storeValue ''own'' (JBool True) (plain_props 1 BOOLEAN) (ex_held (JBool False)))"
    by (simp add: plain_props_def)
  have e: "empty_for_type ex_env (ftype (plain_props 1 BOOLEAN)) (JBool False)"
    "\<not> empty_for_type ex_env (ftype (plain_props 1 BOOLEAN)) (JBool True)"
    "\<not> hasValue ex_env JUndefined"
    by (simp_all add: empty_for_type_def plain_props_def ex_env_def ex_hasValue_def)
  show ?thesis
    using a b e setModelValue_child_clear[OF a] setModelValue_child_clear[OF b]
    by (simp add: ex_composite_def plain_props_def leaf_def ex_held_def getModelValue_def
        storeValue_def ex_env_def ex_hasValue_def empty_form_def)
qed


text \<open>
  C10. Clearing a composite field with \<open>setModelValue(tag, undefined, field)\<close> removes
  the field's own entry and resets its dirty flag whatever the type. For a BOOLEAN or
  NUMBER field the model stays as it was at every tag beneath the child fields (tags
  distinct); for an ARRAY field, and for a STRING or DATE field when undefined is blank,
  every child field that held a value has no model entry afterwards.
\<close>

theorem clear_composite_by_type:
  assumes "setModelValue env t JUndefined (Field p (Some cs) os) st = Inr st'"
  shows "model st' t = None \<and> dirty st' (fref p) = Some False \<and>
         ((ftype p = Some BOOLEAN \<or> ftype p = Some NUMBER) \<and> t \<notin> set (fields_tags cs) \<and>
          set (fields_tags cs) \<inter> set (options_tags (opt_list os)) = {} \<longrightarrow>
            (\<forall>k \<in> set (fields_tags cs). model st' k = model st k)) \<and>
         (ftype p = Some ARRAY \<or>
          ((ftype p = Some STRING \<or> ftype p = Some DATE) \<and> blank env JUndefined) \<longrightarrow>
            (\<forall>c \<in> fst ` set cs. hasValue env (getModelValue st c) \<longrightarrow> model st' c = None))"
proof (intro conjI impI)
  from assms show "model st' t = None" by (rule setModelValue_undefined(1))
  from setModelValue_undefined(2)[OF assms] show "dirty st' (fref p) = Some False" by simp
next
  assume h: "(ftype p = Some BOOLEAN \<or> ftype p = Some NUMBER) \<and> t \<notin> set (fields_tags cs) \<and>
          set (fields_tags cs) \<inter> set (options_tags (opt_list os)) = {}"
  then have "\<not> empty_for_type env (ftype p) JUndefined"
    by (auto simp: empty_for_type_def)
  then have "clearOptionChildren env (opt_list os) JUndefined (storeValue t JUndefined p st) = Inr st'"
    using assms[unfolded setModelValue_steps clears_children_eq] by (auto split: sum.splits)
  then have "same_outside (set (options_tags (opt_list os))) (set (options_refs (opt_list os)))
      (storeValue t JUndefined p st) st'"
    by (rule footprint(2))
  then have "\<forall>k. k \<notin> set (options_tags (opt_list os)) \<longrightarrow>
      model st' k = model (storeValue t JUndefined p st) k"
    by (simp add: same_outside_def)
  moreover have "\<forall>k. k \<noteq> t \<longrightarrow> model (storeValue t JUndefined p st) k = model st k"
    by (simp add: storeValue_def)
  ultimately show "\<forall>k \<in> set (fields_tags cs). model st' k = model st k"
    using h by (metis disjoint_iff)
next
  assume h: "ftype p = Some ARRAY \<or>
          ((ftype p = Some STRING \<or> ftype p = Some DATE) \<and> blank env JUndefined)"
  then have "empty_for_type env (ftype p) JUndefined"
    by (auto simp: empty_for_type_def)
  then obtain s2 where s2: "clearOptionChildren env (opt_list os) JUndefined
        (storeValue t JUndefined p st) = Inr s2"
    and r: "clearFields env cs s2 = Inr st'"
    using assms[unfolded setModelValue_steps clears_children_eq] by (auto split: sum.splits)
  have oc: "only_clears st s2"
    using only_clears_store clears_only(2)[OF s2] by (rule only_clears_trans)
  have oc': "only_clears s2 st'" using r by (rule clears_only(3))
  show "\<forall>c \<in> fst ` set cs. hasValue env (getModelValue st c) \<longrightarrow> model st' c = None"
  proof (intro ballI impI)
    fix c assume c: "c \<in> fst ` set cs" and hv: "hasValue env (getModelValue st c)"
    then obtain ch where mem: "(c, ch) \<in> set cs" by auto
    from only_clears_value[OF oc, of c] show "model st' c = None"
    proof
      assume "model s2 c = None"
      with oc' show ?thesis by (rule only_clears_None)
    next
      assume "getModelValue s2 c = getModelValue st c"
      with hv have "hasValue env (getModelValue s2 c)" by simp
      with r mem show ?thesis by (rule clearFields_deletes_held)
    qed
  qed
qed

theorem clear_composite_by_type_witness:
  "setModelValue ex_env ''own'' JUndefined (ex_composite BOOLEAN) (ex_held (JBool True))
     = Inr (storeValue ''own'' JUndefined (plain_props 1 BOOLEAN) (ex_held (JBool True))) \<and>
   model (storeValue ''own'' JUndefined (plain_props 1 BOOLEAN) (ex_held (JBool True))) ''own'' = None \<and>
   model (storeValue ''own'' JUndefined (plain_props 1 BOOLEAN) (ex_held (JBool True))) ''child''
     = Some (JObj [(''value'', JStr ''c'')]) \<and>
   setModelValue ex_env ''own'' JUndefined (ex_composite STRING) (ex_held (JStr ''s''))
     = Inr (storeValue ''child'' JUndefined (plain_props 2 STRING)
              (storeValue ''own'' JUndefined (plain_props 1 STRING) (ex_held (JStr ''s'')))) \<and>
   blank ex_env JUndefined \<and>
   hasValue ex_env (getModelValue (ex_held (JStr ''s'')) ''child'') \<and>
   model (storeValue ''child'' JUndefined (plain_props 2 STRING)
              (storeValue ''own'' JUndefined (plain_props 1 STRING) (ex_held (JStr ''s'')))) ''child''
     = None"
proof -
  have a: "setModelValue ex_env ''own'' JUndefined
      (Field (plain_props 1 BOOLEAN) (Some [(''child'', leaf 2 STRING)]) None) (ex_held (JBool True))
     = Inr (storeValue ''own'' JUndefined (plain_props 1 BOOLEAN) (ex_held (JBool True)))"
    by (simp add: plain_props_def)
  have b: "setModelValue ex_env ''own'' JUndefined
      (Field (plain_props 1 STRING) (Some [(''child'', leaf 2 STRING)]) None) (ex_held (JStr ''s''))
     = Inr (storeValue ''child'' JUndefined (plain_props 2 STRING)
              (storeValue ''own'' JUndefined (plain_props 1 STRING) (ex_held (JStr ''s''))))"
    by (simp add: leaf_def ex_held_def getModelValue_def storeValue_def ex_env_def
        ex_hasValue_def ex_blank_def empty_form_def plain_props_def)
  have e: "ftype (plain_props 1 BOOLEAN) = Some BOOLEAN" "ftype (plain_props 1 STRING) = Some STRING"
    "blank ex_env JUndefined"
    by (simp_all add: plain_props_def ex_env_def ex_blank_def)
  show ?thesis
    using a b e clear_composite_by_type[OF a] clear_composite_by_type[OF b]
    by (simp add: ex_composite_def plain_props_def leaf_def ex_held_def getModelValue_def
        storeValue_def ex_env_def ex_hasValue_def empty_form_def)
qed


section \<open>Clearing the children of options\<close>

lemma option_tags_subset:
  "FOption q (Some ocs) \<in> set opts \<Longrightarrow> set (fields_tags ocs) \<subseteq> set (options_tags opts)"
proof (induction opts)
  case Nil
  then show ?case by simp
next
  case (Cons opt opts)
  then show ?case by (cases opt) (auto split: option.splits)
qed

lemma excluded_option_cleared:
  assumes "clearOptionChildren env opts v s = Inr s'"
    and "FOption q (Some ocs) \<in> set opts" and "toString env (oid q) = Inr sid"
    and "\<not> js_includes v sid" and "\<not> hasValue env JUndefined" and "(c, ch) \<in> set ocs"
  shows "\<not> hasValue env (getModelValue s' c)"
  using assms(1,2)
proof (induction opts arbitrary: s)
  case Nil
  then show ?case by simp
next
  case (Cons opt opts)
  obtain q' ofs where o: "opt = FOption q' ofs" by (cases opt)
  show ?case
  proof (cases "opt = FOption q (Some ocs)")
    case True
    then obtain s1 where s1: "clearFields env ocs s = Inr s1"
      and r: "clearOptionChildren env opts v s1 = Inr s'"
      using Cons.prems(1) assms(3,4) by (auto split: sum.splits)
    from s1 assms(5,6) have "\<not> hasValue env (getModelValue s1 c)"
      by (rule clearFields_holds_none)
    with clears_only(2)[OF r] assms(5) show ?thesis by (rule only_clears_holds_none)
  next
    case False
    then have mem: "FOption q (Some ocs) \<in> set opts" using Cons.prems(2) by simp
    from Cons.prems(1) o obtain s1 where "clearOptionChildren env opts v s1 = Inr s'"
      by (auto split: option.splits sum.splits if_splits)
    from Cons.IH[OF this mem] show ?thesis .
  qed
qed

lemma included_option_kept:
  assumes "clearOptionChildren env opts v s = Inr s'"
    and "FOption q (Some ocs) \<in> set opts" and "toString env (oid q) = Inr sid"
    and "js_includes v sid" and "distinct (options_tags opts)" and "k \<in> set (fields_tags ocs)"
  shows "model s' k = model s k"
  using assms(1,2,5)
proof (induction opts arbitrary: s)
  case Nil
  then show ?case by simp
next
  case (Cons opt opts)
  obtain q' ofs where o: "opt = FOption q' ofs" by (cases opt)
  have d: "distinct (options_tags opts)"
    and dj: "set (fields_tags (opt_list ofs)) \<inter> set (options_tags opts) = {}"
    using Cons.prems(3) o by (cases ofs; auto)+
  show ?case
  proof (cases "opt = FOption q (Some ocs)")
    case True
    then have r: "clearOptionChildren env opts v s = Inr s'"
      using Cons.prems(1) assms(3,4) by simp
    have "k \<notin> set (options_tags opts)" using dj True o assms(6) by auto
    with footprint(2)[OF r] show ?thesis by (simp add: same_outside_def)
  next
    case False
    then have mem: "FOption q (Some ocs) \<in> set opts" using Cons.prems(2) by simp
    then have kin: "k \<in> set (options_tags opts)" using option_tags_subset assms(6) by blast
    then have kout: "k \<notin> set (fields_tags (opt_list ofs))" using dj by auto
    from Cons.prems(1) o obtain s1 where r: "clearOptionChildren env opts v s1 = Inr s'"
      and s1: "s1 = s \<or> clearFields env (opt_list ofs) s = Inr s1"
      by (auto split: option.splits sum.splits if_splits)
    have "model s1 k = model s k"
      using s1 kout footprint(3) by (auto simp: same_outside_def)
    with Cons.IH[OF r mem d] show ?thesis by simp
  qed
qed

lemma cleared_as_nil: "cleared_as [] st st"
  by (simp add: cleared_as_def)

lemma cleared_as_store: "cleared_as [(t, fref p)] st (storeValue t JUndefined p st)"
  by (simp add: cleared_as_def storeValue_def)

lemma cleared_as_append:
  assumes "cleared_as R1 a b" and "cleared_as R2 b c"
  shows "cleared_as (R1 @ R2) a c"
proof -
  have m: "\<forall>k. model c k = (if k \<in> fst ` set (R1 @ R2) then None else model a k)"
    using assms by (simp add: cleared_as_def image_Un)
  have d: "\<forall>r. dirty c r = (if r \<in> snd ` set (R1 @ R2) then Some False else dirty a r)"
    using assms by (simp add: cleared_as_def image_Un)
  from m d show ?thesis by (simp only: cleared_as_def simp_thms)
qed

lemma cleared_as_model:
  "cleared_as R a b \<Longrightarrow> model b k = (if k \<in> fst ` set R then None else model a k)"
  by (simp add: cleared_as_def)

lemma cleared_as_dirty:
  "cleared_as R a b \<Longrightarrow> (k, r) \<in> set R \<Longrightarrow> dirty b r = Some False"
  by (force simp: cleared_as_def)

text \<open>What a clear reaches depends on the entries at the tags beneath it only.\<close>

lemma reach_cong:
  "\<forall>k \<in> set (field_tags f). model s1 k = model s k
     \<Longrightarrow> reach_field env s1 f = reach_field env s f"
  "\<forall>k \<in> set (options_tags opts). model s1 k = model s k
     \<Longrightarrow> reach_options env s1 opts = reach_options env s opts"
  "\<forall>k \<in> set (fields_tags cs). model s1 k = model s k
     \<Longrightarrow> reach_fields env s1 cs = reach_fields env s cs"
proof (induction f and opts and cs rule: field_tags_options_tags_fields_tags.induct)
  case (1 p cs os)
  then show ?case by (cases os; cases cs) simp_all
next
  case 2
  then show ?case by simp
next
  case (3 q ofs opts)
  then show ?case by (cases ofs) simp_all
next
  case 4
  then show ?case by simp
next
  case (5 t f rest)
  then have "getModelValue s1 t = getModelValue s t" by (simp add: getModelValue_def)
  with 5 show ?case by simp
qed

lemma same_outside_model:
  "same_outside T R a b \<Longrightarrow> k \<notin> T \<Longrightarrow> model b k = model a k"
  by (simp add: same_outside_def)

text \<open>
  With distinct tags, a clear leaves the instance with exactly the fields cleared that it
  reaches from the instance it starts on.
\<close>

lemma clear_reaches:
  "setModelValue env t v f st = Inr st' \<Longrightarrow> v = JUndefined \<Longrightarrow> distinct (t # field_tags f)
     \<Longrightarrow> cleared_as (reach_field env st f) (storeValue t JUndefined (props f) st) st'"
  "clearOptionChildren env opts v st = Inr st' \<Longrightarrow> v = JUndefined
     \<Longrightarrow> distinct (options_tags opts) \<Longrightarrow> cleared_as (reach_options env st opts) st st'"
  "clearFields env cs st = Inr st' \<Longrightarrow> distinct (fields_tags cs)
     \<Longrightarrow> cleared_as (reach_fields env st cs) st st'"
proof (induction env t v f st and env opts v st and env cs st arbitrary: st' and st' and st'
    rule: setModelValue_clearOptionChildren_clearFields.induct)
  case (1 env t v p cs os st)
  let ?s1 = "storeValue t v p st"
  from "1.prems" have v: "v = JUndefined" by simp
  obtain s2 where s2: "(case os of None \<Rightarrow> Inr ?s1
      | Some opts \<Rightarrow> clearOptionChildren env opts v ?s1) = Inr s2"
    and rest: "(case cs of None \<Rightarrow> Inr s2
      | Some children \<Rightarrow> if clears_children env (ftype p) v
          then clearFields env children s2 else Inr s2) = Inr st'"
    using "1.prems"(1) by (auto split: sum.splits)
  have fp: "same_outside (set (case os of None \<Rightarrow> [] | Some opts \<Rightarrow> options_tags opts))
      (set (case os of None \<Rightarrow> [] | Some opts \<Rightarrow> options_refs opts)) ?s1 s2"
    using s2 footprint(2) by (auto split: option.splits intro: same_outside_refl)
  have a: "cleared_as (case os of None \<Rightarrow> [] | Some opts \<Rightarrow> reach_options env st opts) ?s1 s2"
  proof (cases os)
    case None
    then show ?thesis using s2 by (simp add: cleared_as_nil)
  next
    case (Some opts)
    then have r: "clearOptionChildren env opts v ?s1 = Inr s2" using s2 by simp
    have d: "distinct (options_tags opts)" and nt: "t \<notin> set (options_tags opts)"
      using "1.prems"(3) Some by simp_all
    have "\<forall>k \<in> set (options_tags opts). model ?s1 k = model st k"
      using nt by (auto simp: storeValue_def)
    then have "reach_options env ?s1 opts = reach_options env st opts" by (rule reach_cong(2))
    with "1.IH"(1)[OF Some r v d] Some show ?thesis by simp
  qed
  have b: "cleared_as (case cs of None \<Rightarrow> [] | Some children \<Rightarrow>
      if empty_for_type env (ftype p) JUndefined then reach_fields env st children else []) s2 st'"
  proof (cases cs)
    case None
    then show ?thesis using rest by (simp add: cleared_as_nil)
  next
    case (Some children)
    show ?thesis
    proof (cases "clears_children env (ftype p) v")
      case True
      then have r: "clearFields env children s2 = Inr st'" using rest Some by simp
      have d: "distinct (fields_tags children)" and nt: "t \<notin> set (fields_tags children)"
        and dj: "set (fields_tags children) \<inter>
           set (case os of None \<Rightarrow> [] | Some opts \<Rightarrow> options_tags opts) = {}"
        using "1.prems"(3) Some by (auto split: option.splits)
      have "\<forall>k \<in> set (fields_tags children). model s2 k = model st k"
      proof
        fix k assume k: "k \<in> set (fields_tags children)"
        with dj have "k \<notin> set (case os of None \<Rightarrow> [] | Some opts \<Rightarrow> options_tags opts)"
          by auto
        with fp have "model s2 k = model ?s1 k" by (rule same_outside_model)
        moreover have "k \<noteq> t" using k nt by auto
        ultimately show "model s2 k = model st k" by (simp add: storeValue_def)
      qed
      then have "reach_fields env s2 children = reach_fields env st children"
        by (rule reach_cong(3))
      with "1.IH"(2)[OF s2 Some True r d] Some True v show ?thesis
        by (simp add: clears_children_eq)
    next
      case False
      then have "st' = s2" using rest Some by simp
      with False Some v show ?thesis by (simp add: clears_children_eq cleared_as_nil)
    qed
  qed
  from cleared_as_append[OF a b] v show ?case by simp
next
  case (2 env v st)
  then show ?case by (simp add: cleared_as_nil)
next
  case (3 env q ofs opts v st)
  from "3.prems" have v: "v = JUndefined" by simp
  show ?case
  proof (cases ofs)
    case None
    then have r: "clearOptionChildren env opts v st = Inr st'" using "3.prems"(1) by simp
    have d: "distinct (options_tags opts)" using "3.prems"(3) None by simp
    from "3.IH"(1)[OF None r v d] None show ?thesis by simp
  next
    case (Some children)
    then obtain s where s: "toString env (oid q) = Inr s"
      using "3.prems"(1) by (auto split: sum.splits)
    have ni: "\<not> js_includes v s" using v by simp
    obtain s1 where s1: "clearFields env children st = Inr s1"
      and r: "clearOptionChildren env opts v s1 = Inr st'"
      using "3.prems"(1) Some s ni by (auto split: sum.splits)
    have dc: "distinct (fields_tags children)" and d: "distinct (options_tags opts)"
      and dj: "set (fields_tags children) \<inter> set (options_tags opts) = {}"
      using "3.prems"(3) Some by simp_all
    have "\<forall>k \<in> set (options_tags opts). model s1 k = model st k"
    proof
      fix k assume "k \<in> set (options_tags opts)"
      with dj have "k \<notin> set (fields_tags children)" by auto
      with footprint(3)[OF s1] show "model s1 k = model st k" by (rule same_outside_model)
    qed
    then have "reach_options env s1 opts = reach_options env st opts" by (rule reach_cong(2))
    with "3.IH"(3)[OF Some s ni s1 r v d]
    have "cleared_as (reach_options env st opts) s1 st'" by simp
    from cleared_as_append[OF "3.IH"(2)[OF Some s ni s1 dc] this] Some show ?thesis by simp
  qed
next
  case (4 env st)
  then show ?case by (simp add: cleared_as_nil)
next
  case (5 env t f rest st)
  have dr: "distinct (fields_tags rest)" and df: "distinct (t # field_tags f)"
    and dj: "set (t # field_tags f) \<inter> set (fields_tags rest) = {}"
    using "5.prems"(2) by auto
  show ?case
  proof (cases "hasValue env (getModelValue st t)")
    case False
    then have r: "clearFields env rest st = Inr st'" using "5.prems"(1) by simp
    from "5.IH"(3)[OF False r dr] False show ?thesis by simp
  next
    case True
    then obtain s1 where s1: "setModelValue env t JUndefined f st = Inr s1"
      and r: "clearFields env rest s1 = Inr st'"
      using "5.prems"(1) by (auto split: sum.splits)
    have one: "cleared_as ((t, fref (props f)) # reach_field env st f) st s1"
      using cleared_as_append[OF cleared_as_store "5.IH"(1)[OF True s1 refl df]] by simp
    have fp: "same_outside ({t} \<union> set (field_tags f)) ({fref (props f)} \<union> set (field_refs f)) st s1"
      using same_outside_comp[OF same_outside_store footprint(1)[OF s1]] .
    have "\<forall>k \<in> set (fields_tags rest). model s1 k = model st k"
    proof
      fix k assume "k \<in> set (fields_tags rest)"
      with dj have "k \<notin> {t} \<union> set (field_tags f)" by auto
      with fp show "model s1 k = model st k" by (rule same_outside_model)
    qed
    then have "reach_fields env s1 rest = reach_fields env st rest" by (rule reach_cong(3))
    with "5.IH"(2)[OF True s1 r dr] have "cleared_as (reach_fields env st rest) s1 st'" by simp
    from cleared_as_append[OF one this] True show ?thesis by simp
  qed
qed

lemma excluded_option_reached:
  assumes "clearOptionChildren env opts v s = Inr s'"
    and "FOption q (Some ocs) \<in> set opts" and "toString env (oid q) = Inr sid"
    and "\<not> js_includes v sid" and "distinct (options_tags opts)"
  shows "(\<forall>k \<in> set (fields_tags ocs).
            model s' k = (if k \<in> fst ` set (reach_fields env s ocs) then None else model s k)) \<and>
         (\<forall>kr \<in> set (reach_fields env s ocs). dirty s' (snd kr) = Some False)"
  using assms(1,2,5)
proof (induction opts arbitrary: s)
  case Nil
  then show ?case by simp
next
  case (Cons opt opts)
  obtain q' ofs where o: "opt = FOption q' ofs" by (cases opt)
  have d: "distinct (options_tags opts)"
    and dj: "set (fields_tags (opt_list ofs)) \<inter> set (options_tags opts) = {}"
    using Cons.prems(3) o by (cases ofs; auto)+
  show ?case
  proof (cases "opt = FOption q (Some ocs)")
    case True
    then obtain s1 where s1: "clearFields env ocs s = Inr s1"
      and r: "clearOptionChildren env opts v s1 = Inr s'"
      using Cons.prems(1) assms(3,4) by (auto split: sum.splits)
    have dc: "distinct (fields_tags ocs)" using Cons.prems(3) True by simp
    have ca: "cleared_as (reach_fields env s ocs) s s1" using s1 dc by (rule clear_reaches(3))
    have A: "\<forall>k \<in> set (fields_tags ocs).
        model s' k = (if k \<in> fst ` set (reach_fields env s ocs) then None else model s k)"
    proof
      fix k assume k: "k \<in> set (fields_tags ocs)"
      then have "k \<notin> set (options_tags opts)" using dj True o by auto
      with footprint(2)[OF r] have "model s' k = model s1 k" by (rule same_outside_model)
      with cleared_as_model[OF ca, of k]
      show "model s' k = (if k \<in> fst ` set (reach_fields env s ocs) then None else model s k)"
        by simp
    qed
    have B: "\<forall>kr \<in> set (reach_fields env s ocs). dirty s' (snd kr) = Some False"
    proof
      fix kr assume "kr \<in> set (reach_fields env s ocs)"
      then have "(fst kr, snd kr) \<in> set (reach_fields env s ocs)" by simp
      with ca have "dirty s1 (snd kr) = Some False" by (rule cleared_as_dirty)
      with clears_only(2)[OF r] show "dirty s' (snd kr) = Some False"
        by (rule only_clears_dirty)
    qed
    from A B show ?thesis by (rule conjI)
  next
    case False
    then have mem: "FOption q (Some ocs) \<in> set opts" using Cons.prems(2) by simp
    from Cons.prems(1) o obtain s1 where r: "clearOptionChildren env opts v s1 = Inr s'"
      and s1: "s1 = s \<or> clearFields env (opt_list ofs) s = Inr s1"
      by (auto split: option.splits sum.splits if_splits)
    have eq: "\<forall>k \<in> set (fields_tags ocs). model s1 k = model s k"
    proof
      fix k assume "k \<in> set (fields_tags ocs)"
      then have "k \<in> set (options_tags opts)" using option_tags_subset[OF mem] by blast
      then have "k \<notin> set (fields_tags (opt_list ofs))" using dj by auto
      then show "model s1 k = model s k"
        using s1 footprint(3) by (auto simp: same_outside_def)
    qed
    then have rc: "reach_fields env s1 ocs = reach_fields env s ocs" by (rule reach_cong(3))
    from Cons.IH[OF r mem d] eq rc show ?thesis by simp
  qed
qed

text \<open>
  C3, as the code has it. For a field with \<open>options\<close>, when \<open>setModelValue\<close> returns,
  take an option that owns fields. When its stringified id is not contained in the new
  value, no field of the option holds a value any more; and (tags distinct) beneath the
  option exactly the fields that the clear reaches have lost their entry, every other
  entry is as it was, and the dirty flag of every field reached is false. The clear
  reaches each field of the option that held a value, and from a field it reaches it goes
  on to the fields of all of that field's options and, when undefined is empty for the
  field's type, to its child fields, passing by every field that held no value together
  with what is beneath it. When the id is contained in the new value, the model is
  unchanged at every tag beneath the option (tags distinct).
\<close>

theorem setModelValue_option_children:
  assumes "setModelValue env t v (Field p cs (Some opts)) st = Inr st'"
    and "FOption q (Some ocs) \<in> set opts" and "toString env (oid q) = Inr sid"
  shows "(\<not> js_includes v sid \<and> \<not> hasValue env JUndefined \<longrightarrow>
            (\<forall>c \<in> fst ` set ocs. \<not> hasValue env (getModelValue st' c))) \<and>
         (\<not> js_includes v sid \<and> distinct (t # field_tags (Field p cs (Some opts))) \<longrightarrow>
            (\<forall>k \<in> set (fields_tags ocs).
               model st' k =
                 (if k \<in> fst ` set (reach_fields env st ocs) then None else model st k)) \<and>
            (\<forall>kr \<in> set (reach_fields env st ocs). dirty st' (snd kr) = Some False)) \<and>
         (js_includes v sid \<and> distinct (t # field_tags (Field p cs (Some opts))) \<longrightarrow>
            (\<forall>k \<in> set (fields_tags ocs). model st' k = model st k))"
proof -
  let ?s1 = "storeValue t v p st"
  from assms(1)[unfolded setModelValue_steps]
  obtain s2 where s2: "clearOptionChildren env opts v ?s1 = Inr s2"
    and r: "st' = s2 \<or> clearFields env (opt_list cs) s2 = Inr st'"
    by (auto split: sum.splits if_splits)
  have oc: "only_clears s2 st'"
    using r clears_only(3) by (auto simp: only_clears_refl)
  have fp: "same_outside (set (fields_tags (opt_list cs))) (set (fields_refs (opt_list cs))) s2 st'"
    using r footprint(3) by (auto simp: same_outside_refl)
  have A: "\<not> js_includes v sid \<and> \<not> hasValue env JUndefined \<longrightarrow>
      (\<forall>c \<in> fst ` set ocs. \<not> hasValue env (getModelValue st' c))"
  proof (intro impI ballI)
    fix c assume h: "\<not> js_includes v sid \<and> \<not> hasValue env JUndefined" and "c \<in> fst ` set ocs"
    then obtain ch where mem: "(c, ch) \<in> set ocs" by auto
    from h have h1: "\<not> js_includes v sid" and h2: "\<not> hasValue env JUndefined" by simp_all
    have "\<not> hasValue env (getModelValue s2 c)"
      by (rule excluded_option_cleared[OF s2 assms(2,3) h1 h2 mem])
    with oc h2 show "\<not> hasValue env (getModelValue st' c)"
      by (rule only_clears_holds_none)
  qed
  have frame: "model ?s1 k = model st k \<and> model st' k = model s2 k"
    if "distinct (t # field_tags (Field p cs (Some opts)))" and "k \<in> set (fields_tags ocs)" for k
  proof -
    have kin: "k \<in> set (options_tags opts)" using option_tags_subset[OF assms(2)] that(2) by blast
    have kt: "k \<noteq> t" and kc: "k \<notin> set (fields_tags (opt_list cs))"
      using that(1) kin by (cases cs; auto)+
    from kt have "model ?s1 k = model st k" by (simp add: storeValue_def)
    moreover from fp kc have "model st' k = model s2 k" by (rule same_outside_model)
    ultimately show ?thesis by simp
  qed
  have B: "\<not> js_includes v sid \<and> distinct (t # field_tags (Field p cs (Some opts))) \<longrightarrow>
      (\<forall>k \<in> set (fields_tags ocs).
         model st' k = (if k \<in> fst ` set (reach_fields env st ocs) then None else model st k)) \<and>
      (\<forall>kr \<in> set (reach_fields env st ocs). dirty st' (snd kr) = Some False)"
  proof
    assume h: "\<not> js_includes v sid \<and> distinct (t # field_tags (Field p cs (Some opts)))"
    then have h1: "\<not> js_includes v sid" and dd: "distinct (t # field_tags (Field p cs (Some opts)))"
      by simp_all
    from dd have d: "distinct (options_tags opts)" by simp
    have "\<forall>k \<in> set (fields_tags ocs). model ?s1 k = model st k" using frame[OF dd] by simp
    then have rc: "reach_fields env ?s1 ocs = reach_fields env st ocs" by (rule reach_cong(3))
    note ex = excluded_option_reached[OF s2 assms(2,3) h1 d, unfolded rc]
    have B1: "\<forall>k \<in> set (fields_tags ocs).
        model st' k = (if k \<in> fst ` set (reach_fields env st ocs) then None else model st k)"
    proof
      fix k assume k: "k \<in> set (fields_tags ocs)"
      from ex k have "model s2 k =
          (if k \<in> fst ` set (reach_fields env st ocs) then None else model ?s1 k)" by simp
      with frame[OF dd k]
      show "model st' k = (if k \<in> fst ` set (reach_fields env st ocs) then None else model st k)"
        by simp
    qed
    have B2: "\<forall>kr \<in> set (reach_fields env st ocs). dirty st' (snd kr) = Some False"
    proof
      fix kr assume "kr \<in> set (reach_fields env st ocs)"
      with ex have "dirty s2 (snd kr) = Some False" by simp
      with oc show "dirty st' (snd kr) = Some False" by (rule only_clears_dirty)
    qed
    from B1 B2 show "(\<forall>k \<in> set (fields_tags ocs).
         model st' k = (if k \<in> fst ` set (reach_fields env st ocs) then None else model st k)) \<and>
      (\<forall>kr \<in> set (reach_fields env st ocs). dirty st' (snd kr) = Some False)"
      by (rule conjI)
  qed
  have C: "js_includes v sid \<and> distinct (t # field_tags (Field p cs (Some opts))) \<longrightarrow>
      (\<forall>k \<in> set (fields_tags ocs). model st' k = model st k)"
  proof (intro impI ballI)
    fix k assume h: "js_includes v sid \<and> distinct (t # field_tags (Field p cs (Some opts)))"
      and k: "k \<in> set (fields_tags ocs)"
    then have h1: "js_includes v sid" and dd: "distinct (t # field_tags (Field p cs (Some opts)))"
      by simp_all
    from dd have d: "distinct (options_tags opts)" by simp
    have "model s2 k = model ?s1 k"
      by (rule included_option_kept[OF s2 assms(2,3) h1 d k])
    with frame[OF dd k] show "model st' k = model st k" by simp
  qed
  from A B C show ?thesis by (intro conjI)
qed

theorem setModelValue_option_children_witness:
  "setModelValue ex_env ''survey'' (JArr [JStr ''a'']) ex_survey ex_survey_state
     = Inr (storeValue ''g'' JUndefined (plain_props 4 STRING)
             (storeValue ''sb'' JUndefined (plain_props 3 STRING)
               (storeValue ''survey'' (JArr [JStr ''a'']) (plain_props 1 ARRAY) ex_survey_state))) \<and>
   js_includes (JArr [JStr ''a'']) ''a'' \<and> \<not> js_includes (JArr [JStr ''a'']) ''b'' \<and>
   \<not> hasValue ex_env JUndefined \<and>
   reach_fields ex_env ex_survey_state
     [(''sb'', Field (plain_props 3 STRING) (Some [(''g'', leaf 4 STRING)]) None),
      (''sc'', Field (plain_props 5 STRING) (Some [(''h'', leaf 6 STRING)]) None)]
     = [(''sb'', 3), (''g'', 4)] \<and>
   map (model (storeValue ''g'' JUndefined (plain_props 4 STRING)
             (storeValue ''sb'' JUndefined (plain_props 3 STRING)
               (storeValue ''survey'' (JArr [JStr ''a'']) (plain_props 1 ARRAY) ex_survey_state))))
       [''sb'', ''g'', ''sc'', ''h'', ''sa'']
     = [None, None, None, Some (JObj [(''value'', JStr ''w'')]), Some (JObj [(''value'', JStr ''x'')])] \<and>
   map (dirty (storeValue ''g'' JUndefined (plain_props 4 STRING)
             (storeValue ''sb'' JUndefined (plain_props 3 STRING)
               (storeValue ''survey'' (JArr [JStr ''a'']) (plain_props 1 ARRAY) ex_survey_state))))
       [3, 4, 6]
     = [Some False, Some False, Some True]"
proof -
  let ?ca = "[(''sa'', leaf 2 STRING)]"
  let ?cb = "[(''sb'', Field (plain_props 3 STRING) (Some [(''g'', leaf 4 STRING)]) None),
      (''sc'', Field (plain_props 5 STRING) (Some [(''h'', leaf 6 STRING)]) None)]"
  let ?qa = "\<lparr>oref = 10, oid = JStr ''a'', odefaultValueConditions = JUndefined, oparent = None\<rparr>"
  let ?qb = "\<lparr>oref = 11, oid = JStr ''b'', odefaultValueConditions = JUndefined, oparent = None\<rparr>"
  let ?opts = "[FOption ?qa (Some ?ca), FOption ?qb (Some ?cb)]"
  let ?st' = "storeValue ''g'' JUndefined (plain_props 4 STRING)
             (storeValue ''sb'' JUndefined (plain_props 3 STRING)
               (storeValue ''survey'' (JArr [JStr ''a'']) (plain_props 1 ARRAY) ex_survey_state))"
  have a: "setModelValue ex_env ''survey'' (JArr [JStr ''a''])
      (Field (plain_props 1 ARRAY) None (Some ?opts)) ex_survey_state = Inr ?st'"
    by (simp add: leaf_def ex_survey_state_def getModelValue_def storeValue_def
        ex_env_sel ex_hasValue_def ex_blank_def empty_form_def plain_props_def toString_def)
  have oa: "FOption ?qa (Some ?ca) \<in> set ?opts" and ob: "FOption ?qb (Some ?cb) \<in> set ?opts"
    by simp_all
  have ia: "toString ex_env (oid ?qa) = Inr ''a''" and ib: "toString ex_env (oid ?qb) = Inr ''b''"
    by (simp_all add: toString_def)
  have rb: "reach_fields ex_env ex_survey_state ?cb = [(''sb'', 3), (''g'', 4)]"
    by (simp add: ex_survey_state_def empty_form_def getModelValue_def ex_env_sel ex_hasValue_def
        ex_blank_def empty_for_type_def plain_props_def leaf_def)
  show ?thesis
    using a rb setModelValue_option_children[OF a oa ia] setModelValue_option_children[OF a ob ib]
    by (simp add: ex_survey_def ex_option_def leaf_def ex_survey_state_def getModelValue_def
        storeValue_def ex_env_sel ex_hasValue_def empty_form_def plain_props_def)
qed

theorem option_descendant_kept_counterexample:
  "setModelValue ex_env ''choice'' (JArr [JStr ''a'']) ex_choice ex_choice_orphan
     = Inr (storeValue ''choice'' (JArr [JStr ''a'']) (plain_props 1 ARRAY) ex_choice_orphan) \<and>
   toString ex_env (JStr ''b'') = Inr ''b'' \<and> \<not> js_includes (JArr [JStr ''a'']) ''b'' \<and>
   ''g'' \<in> set (options_tags
      [ex_option 11 ''b'' [(''cb'', Field (plain_props 3 BOOLEAN) (Some [(''g'', leaf 4 STRING)]) None)]]) \<and>
   hasValue ex_env (getModelValue ex_choice_orphan ''g'') \<and>
   hasValue ex_env (getModelValue
      (storeValue ''choice'' (JArr [JStr ''a'']) (plain_props 1 ARRAY) ex_choice_orphan) ''g'') \<and>
   model (storeValue ''choice'' (JArr [JStr ''a'']) (plain_props 1 ARRAY) ex_choice_orphan) ''g''
     = Some (JObj [(''value'', JStr ''y'')]) \<and>
   setModelValue ex_env ''choice'' (JArr [JStr ''a'']) ex_choice ex_choice_full
     = Inr (storeValue ''cb'' JUndefined (plain_props 3 BOOLEAN)
             (storeValue ''choice'' (JArr [JStr ''a'']) (plain_props 1 ARRAY) ex_choice_full)) \<and>
   hasValue ex_env (getModelValue ex_choice_full ''g'') \<and>
   model (storeValue ''cb'' JUndefined (plain_props 3 BOOLEAN)
             (storeValue ''choice'' (JArr [JStr ''a'']) (plain_props 1 ARRAY) ex_choice_full)) ''g''
     = Some (JObj [(''value'', JStr ''y'')])"
  by (simp add: ex_choice_def ex_option_def leaf_def ex_choice_orphan_def ex_choice_full_def
      getModelValue_def storeValue_def ex_env_sel ex_hasValue_def empty_form_def plain_props_def
      toString_def)


section \<open>Visibility\<close>

text \<open>
  C6. A field without a show condition yields true and the instance is unchanged. When
  the condition evaluates false and the field holds a value that is not blank, a call of
  \<open>evaluateShowCondition\<close> that returns has cleared the value through \<open>setModelValue\<close>,
  and the model has no entry for the tag. The check is idempotent: after a call that
  yielded false, a second call returns and leaves the instance as it is (undefined being
  blank).
\<close>

theorem evaluateShowCondition_clears_once:
  "(\<not> truthy (showCondition (props f)) \<longrightarrow>
      evaluateShowCondition env f t st = Inr (JBool True, st)) \<and>
   (truthy (showCondition (props f)) \<and>
    \<not> truthy (evalCondition env (showCondition (props f)) st) \<and>
    \<not> blank env (getModelValue st t) \<longrightarrow>
      (\<forall>r st'. evaluateShowCondition env f t st = Inr (r, st') \<longrightarrow>
         setModelValue env t JUndefined f st = Inr st' \<and> model st' t = None \<and>
         r = evalCondition env (showCondition (props f)) st)) \<and>
   (blank env JUndefined \<longrightarrow>
      (\<forall>r st'. evaluateShowCondition env f t st = Inr (r, st') \<and> \<not> truthy r \<longrightarrow>
         (\<exists>r'. evaluateShowCondition env f t st' = Inr (r', st'))))"
proof -
  have A: "\<not> truthy (showCondition (props f)) \<longrightarrow>
      evaluateShowCondition env f t st = Inr (JBool True, st)"
    by (simp add: evaluateShowCondition_def)
  have B: "truthy (showCondition (props f)) \<and>
    \<not> truthy (evalCondition env (showCondition (props f)) st) \<and>
    \<not> blank env (getModelValue st t) \<longrightarrow>
      (\<forall>r st'. evaluateShowCondition env f t st = Inr (r, st') \<longrightarrow>
         setModelValue env t JUndefined f st = Inr st' \<and> model st' t = None \<and>
         r = evalCondition env (showCondition (props f)) st)"
  proof (intro impI allI)
    fix r st'
    assume h: "truthy (showCondition (props f)) \<and>
      \<not> truthy (evalCondition env (showCondition (props f)) st) \<and>
      \<not> blank env (getModelValue st t)"
      and run: "evaluateShowCondition env f t st = Inr (r, st')"
    from h run have s: "setModelValue env t JUndefined f st = Inr st'"
      and r: "r = evalCondition env (showCondition (props f)) st"
      by (auto simp: evaluateShowCondition_def Let_def split: sum.splits)
    from s have "model st' t = None" by (rule setModelValue_undefined(1))
    with s r show "setModelValue env t JUndefined f st = Inr st' \<and> model st' t = None \<and>
         r = evalCondition env (showCondition (props f)) st"
      by simp
  qed
  have C: "blank env JUndefined \<longrightarrow>
      (\<forall>r st'. evaluateShowCondition env f t st = Inr (r, st') \<and> \<not> truthy r \<longrightarrow>
         (\<exists>r'. evaluateShowCondition env f t st' = Inr (r', st')))"
  proof (intro impI allI)
    fix r st'
    assume b: "blank env JUndefined"
      and run: "evaluateShowCondition env f t st = Inr (r, st') \<and> \<not> truthy r"
    then have sc: "truthy (showCondition (props f))"
      by (auto simp: evaluateShowCondition_def split: if_splits)
    show "\<exists>r'. evaluateShowCondition env f t st' = Inr (r', st')"
    proof (cases "blank env (getModelValue st t)")
      case True
      with run sc have "st' = st"
        by (auto simp: evaluateShowCondition_def Let_def split: if_splits)
      with run show ?thesis by auto
    next
      case False
      with run sc have "setModelValue env t JUndefined f st = Inr st'"
        by (auto simp: evaluateShowCondition_def Let_def split: if_splits sum.splits)
      then have "model st' t = None" by (rule setModelValue_undefined(1))
      then have "getModelValue st' t = JUndefined" by (rule getModelValue_None)
      with b sc show ?thesis
        by (simp add: evaluateShowCondition_def Let_def)
    qed
  qed
  from A B C show ?thesis by (intro conjI)
qed

theorem evaluateShowCondition_clears_once_witness:
  "truthy (JArr [JStr ''age'', JNum 17]) \<and>
   \<not> truthy (evalCondition ex_env (JArr [JStr ''age'', JNum 17])
        (empty_form\<lparr>model := [''age'' \<mapsto> JObj [(''value'', JNum 10)],
                                ''licence'' \<mapsto> JObj [(''value'', JStr ''B'')]]\<rparr>)) \<and>
   evaluateShowCondition ex_env
      (Field ((plain_props 1 STRING)\<lparr>showCondition := JArr [JStr ''age'', JNum 17]\<rparr>) None None)
      ''licence''
      (empty_form\<lparr>model := [''age'' \<mapsto> JObj [(''value'', JNum 10)],
                              ''licence'' \<mapsto> JObj [(''value'', JStr ''B'')]]\<rparr>)
     = Inr (JBool False,
            empty_form\<lparr>model := [''age'' \<mapsto> JObj [(''value'', JNum 10)]], dirty := [1 \<mapsto> False]\<rparr>) \<and>
   evaluateShowCondition ex_env
      (Field ((plain_props 1 STRING)\<lparr>showCondition := JArr [JStr ''age'', JNum 17]\<rparr>) None None)
      ''licence''
      (empty_form\<lparr>model := [''age'' \<mapsto> JObj [(''value'', JNum 10)]], dirty := [1 \<mapsto> False]\<rparr>)
     = Inr (JBool False,
            empty_form\<lparr>model := [''age'' \<mapsto> JObj [(''value'', JNum 10)]], dirty := [1 \<mapsto> False]\<rparr>) \<and>
   evaluateShowCondition ex_env (leaf 1 STRING) ''licence'' empty_form = Inr (JBool True, empty_form)"
proof -
  let ?f = "Field ((plain_props 1 STRING)\<lparr>showCondition := JArr [JStr ''age'', JNum 17]\<rparr>) None None"
  let ?s = "empty_form\<lparr>model := [''age'' \<mapsto> JObj [(''value'', JNum 10)],
                                ''licence'' \<mapsto> JObj [(''value'', JStr ''B'')]]\<rparr>"
  let ?s' = "empty_form\<lparr>model := [''age'' \<mapsto> JObj [(''value'', JNum 10)]], dirty := [1 \<mapsto> False]\<rparr>"
  have m: "[''age'' \<mapsto> JObj [(''value'', JNum 10)], ''licence'' \<mapsto> JObj [(''value'', JStr ''B'')]]
      (''licence'' := None) = [''age'' \<mapsto> JObj [(''value'', JNum 10)]]"
    by (rule ext) simp
  have a: "evaluateShowCondition ex_env ?f ''licence'' ?s = Inr (JBool False, ?s')"
    by (simp add: evaluateShowCondition_def ex_env_def ex_evalCondition_def getModelValue_def
        ex_blank_def storeValue_def plain_props_def empty_form_def m)
  have b: "blank ex_env JUndefined" by (simp add: ex_env_def ex_blank_def)
  have c: "\<not> truthy (showCondition (props (leaf 1 STRING)))"
    by (simp add: leaf_def plain_props_def)
  from evaluateShowCondition_clears_once[of ?f ex_env "''licence''" ?s] a b
  have "\<exists>r'. evaluateShowCondition ex_env ?f ''licence'' ?s' = Inr (r', ?s')"
    by simp
  moreover have "\<not> truthy (evalCondition ex_env (JArr [JStr ''age'', JNum 17]) ?s')"
    "\<not> truthy (evalCondition ex_env (JArr [JStr ''age'', JNum 17]) ?s)"
    by (simp_all add: ex_env_def ex_evalCondition_def getModelValue_def empty_form_def)
  ultimately show ?thesis
    using a c evaluateShowCondition_clears_once[of "leaf 1 STRING" ex_env "''licence''" empty_form]
    by (auto simp: evaluateShowCondition_def Let_def ex_env_def ex_evalCondition_def
        getModelValue_def empty_form_def leaf_def plain_props_def ex_blank_def split: if_splits)
qed


section \<open>Status rollup\<close>

lemma getStatus_loop_Inr:
  "getStatus_loop env statusOf items s = Inr r \<Longrightarrow>
   \<exists>ys. map statusOf items = map Inr ys \<and>
     r = fold (\<lambda>y acc. if isMoreSevereStatus env y acc then y else acc) ys s"
proof (induction items arbitrary: s)
  case Nil
  then show ?case by simp
next
  case (Cons i items)
  then obtain y where y: "statusOf i = Inr y"
    and r: "getStatus_loop env statusOf items
       (if isMoreSevereStatus env y s then y else s) = Inr r"
    by (auto split: sum.splits)
  from Cons.IH[OF r] obtain ys where "map statusOf items = map Inr ys"
    and "r = fold (\<lambda>y acc. if isMoreSevereStatus env y acc then y else acc) ys
       (if isMoreSevereStatus env y s then y else s)"
    by blast
  with y have "map statusOf (i # items) = map Inr (y # ys) \<and>
     r = fold (\<lambda>y acc. if isMoreSevereStatus env y acc then y else acc) (y # ys) s"
    by simp
  then show ?case by blast
qed

lemma getStatus_loop_returns:
  "map statusOf items = map Inr ys \<Longrightarrow>
   getStatus_loop env statusOf items s
     = Inr (fold (\<lambda>y acc. if isMoreSevereStatus env y acc then y else acc) ys s)"
proof (induction items arbitrary: s ys)
  case Nil
  then show ?case by simp
next
  case (Cons i items)
  then obtain y ys' where "ys = y # ys'" "statusOf i = Inr y" "map statusOf items = map Inr ys'"
    by (cases ys) auto
  with Cons.IH[of ys'] show ?case by simp
qed

lemma first_most_severe_single: "first_most_severe sev [s] s"
  by (simp add: first_most_severe_def)

lemma first_most_severe_snoc:
  assumes "first_most_severe sev xs acc"
  shows "first_most_severe sev (xs @ [y]) (if sev acc < sev y then y else acc)"
proof -
  from assms obtain i where i: "i < length xs" "xs ! i = acc"
    and mx: "\<forall>j < length xs. sev (xs ! j) \<le> sev acc"
    and fst: "\<forall>j < i. sev (xs ! j) < sev acc"
    by (auto simp: first_most_severe_def)
  show ?thesis
  proof (cases "sev acc < sev y")
    case True
    have "(xs @ [y]) ! length xs = y" by simp
    moreover have "\<forall>j < length (xs @ [y]). sev ((xs @ [y]) ! j) \<le> sev y"
      using mx True by (auto simp: nth_append less_Suc_eq intro: order_trans less_imp_le)
    moreover have "\<forall>j < length xs. sev ((xs @ [y]) ! j) < sev y"
      using mx True by (auto simp: nth_append intro: le_less_trans)
    ultimately show ?thesis
      using True unfolding first_most_severe_def
      by (intro exI[of _ "length xs"]) simp
  next
    case False
    have "(xs @ [y]) ! i = acc" using i by (simp add: nth_append)
    moreover have "\<forall>j < length (xs @ [y]). sev ((xs @ [y]) ! j) \<le> sev acc"
      using mx False by (auto simp: nth_append less_Suc_eq)
    moreover have "\<forall>j < i. sev ((xs @ [y]) ! j) < sev acc"
      using fst i by (auto simp: nth_append)
    ultimately show ?thesis
      using False i unfolding first_most_severe_def
      by (intro exI[of _ i]) simp
  qed
qed

lemma fold_first_most_severe:
  assumes "\<forall>a b. isMoreSevereStatus env a b \<longleftrightarrow> sev b < sev a"
    and "first_most_severe sev pre acc"
  shows "first_most_severe sev (pre @ ys)
     (fold (\<lambda>y acc. if isMoreSevereStatus env y acc then y else acc) ys acc)"
  using assms(2)
proof (induction ys arbitrary: pre acc)
  case Nil
  then show ?case by simp
next
  case (Cons y ys)
  from first_most_severe_snoc[OF Cons.prems, of y]
  have "first_most_severe sev (pre @ [y]) (if isMoreSevereStatus env y acc then y else acc)"
    using assms(1) by simp
  from Cons.IH[OF this] show ?case by simp
qed

lemma getStatus_first_most_severe:
  assumes "\<forall>a b. isMoreSevereStatus env a b \<longleftrightarrow> sev b < sev a"
    and "getStatus env items statusOf = Inr r"
  shows "\<exists>ys. map statusOf items = map Inr ys \<and> first_most_severe sev (STATUS_OK env # ys) r"
proof -
  from assms(2) obtain ys where ys: "map statusOf items = map Inr ys"
    and r: "r = fold (\<lambda>y acc. if isMoreSevereStatus env y acc then y else acc) ys (STATUS_OK env)"
    unfolding getStatus_def by (blast dest: getStatus_loop_Inr)
  from fold_first_most_severe[OF assms(1) first_most_severe_single, of "STATUS_OK env" ys] r
  have "first_most_severe sev (STATUS_OK env # ys) r" by simp
  with ys show ?thesis by blast
qed

text \<open>
  C7. Under a severity scale that decides \<open>isMoreSevereStatus\<close>, a subsection status
  that \<open>getSubsectionStatus\<close> returns is the first of greatest severity in the list that
  starts with OK and goes on with the validation statuses of the subsection's fields in
  order; a section status that \<open>getSectionStatus\<close> returns is the first of greatest
  severity in the list that starts with OK and goes on with what \<open>getSubsectionStatus\<close>
  returns for its subsections. Both return when every result asked for is an object.
\<close>

theorem status_rollup:
  assumes "\<forall>a b. isMoreSevereStatus env a b \<longleftrightarrow> sev b < sev a"
  shows "(\<forall>r. getSubsectionStatus env st sub = Inr r \<longrightarrow>
            first_most_severe sev
              (STATUS_OK env #
                 map (\<lambda>t. js_prop (validationResults st t) ''status'')
                   (map fst (opt_list (subsection_fields sub)))) r) \<and>
         (\<forall>r. getSectionStatus env st sec = Inr r \<longrightarrow>
            (\<exists>rollups. map (getSubsectionStatus env st) (opt_list (subsections sec)) = map Inr rollups \<and>
               first_most_severe sev (STATUS_OK env # rollups) r)) \<and>
         ((\<forall>t \<in> set (map fst (opt_list (subsection_fields sub))).
              validationResults st t \<noteq> JUndefined \<and> validationResults st t \<noteq> JNull) \<longrightarrow>
            (\<exists>r. getSubsectionStatus env st sub = Inr r))"
proof (intro conjI allI impI)
  fix r assume run: "getSubsectionStatus env st sub = Inr r"
  let ?tags = "map fst (opt_list (subsection_fields sub))"
  have items: "(case subsection_fields sub of None \<Rightarrow> [] | Some fs \<Rightarrow> map fst fs) = ?tags"
    by (cases "subsection_fields sub") simp_all
  from run have "getStatus env ?tags (getValidationStatusByTag st) = Inr r"
    by (simp add: getSubsectionStatus_def items)
  from getStatus_first_most_severe[OF assms this]
  obtain ys where ys: "map (getValidationStatusByTag st) ?tags = map Inr ys"
    and fm: "first_most_severe sev (STATUS_OK env # ys) r" by blast
  have "ys = map (\<lambda>t. js_prop (validationResults st t) ''status'') ?tags"
  proof (rule nth_equalityI)
    show "length ys = length (map (\<lambda>t. js_prop (validationResults st t) ''status'') ?tags)"
      using ys by (metis length_map)
  next
    fix i assume i: "i < length ys"
    then have il: "i < length ?tags" using ys by (metis length_map)
    from ys have "map (getValidationStatusByTag st) ?tags ! i = map Inr ys ! i" by simp
    with i il have "getValidationStatusByTag st (?tags ! i) = Inr (ys ! i)" by simp
    then have "ys ! i = js_prop (validationResults st (?tags ! i)) ''status''"
      by (auto simp: getValidationStatusByTag_def get_prop_def split: if_splits)
    with il show "ys ! i = map (\<lambda>t. js_prop (validationResults st t) ''status'') ?tags ! i"
      by simp
  qed
  with fm show "first_most_severe sev
      (STATUS_OK env # map (\<lambda>t. js_prop (validationResults st t) ''status'') ?tags) r"
    by simp
next
  fix r assume run: "getSectionStatus env st sec = Inr r"
  have items: "(case subsections sec of None \<Rightarrow> [] | Some subs \<Rightarrow> subs) = opt_list (subsections sec)"
    by (cases "subsections sec") simp_all
  from run have "getStatus env (opt_list (subsections sec)) (getSubsectionStatus env st) = Inr r"
    by (simp add: getSectionStatus_def items)
  from getStatus_first_most_severe[OF assms this]
  show "\<exists>rollups. map (getSubsectionStatus env st) (opt_list (subsections sec)) = map Inr rollups \<and>
      first_most_severe sev (STATUS_OK env # rollups) r" .
next
  let ?tags = "map fst (opt_list (subsection_fields sub))"
  assume ok: "\<forall>t \<in> set ?tags. validationResults st t \<noteq> JUndefined \<and> validationResults st t \<noteq> JNull"
  have items: "(case subsection_fields sub of None \<Rightarrow> [] | Some fs \<Rightarrow> map fst fs) = ?tags"
    by (cases "subsection_fields sub") simp_all
  from ok have "map (getValidationStatusByTag st) ?tags
      = map Inr (map (\<lambda>t. js_prop (validationResults st t) ''status'') ?tags)"
    by (simp add: getValidationStatusByTag_def get_prop_def)
  from getStatus_loop_returns[OF this]
  show "\<exists>r. getSubsectionStatus env st sub = Inr r"
    by (simp add: getSubsectionStatus_def getStatus_def items)
qed

theorem status_rollup_witness:
  "(\<forall>a b. isMoreSevereStatus ex_env a b \<longleftrightarrow> ex_severity b < ex_severity a) \<and>
   getSubsectionStatus ex_env ex_validated ex_subsection_abc = Inr (JStr ''ERROR'') \<and>
   first_most_severe ex_severity [JStr ''OK'', JStr ''WARNING'', JStr ''ERROR'', JStr ''WARNING'']
     (JStr ''ERROR'') \<and>
   getSubsectionStatus ex_env ex_validated ex_subsection_d = Inr (JStr ''OK'') \<and>
   first_most_severe ex_severity [JStr ''OK'', JStr ''fine''] (JStr ''OK'') \<and>
   getSectionStatus ex_env ex_validated
      \<lparr>sortOrder = None, subsections = Some [ex_subsection_d, ex_subsection_abc]\<rparr>
     = Inr (JStr ''ERROR'') \<and>
   first_most_severe ex_severity [JStr ''OK'', JStr ''OK'', JStr ''ERROR''] (JStr ''ERROR'')"
proof -
  have sev: "\<forall>a b. isMoreSevereStatus ex_env a b \<longleftrightarrow> ex_severity b < ex_severity a"
    by (simp add: ex_env_sel)
  have a: "getSubsectionStatus ex_env ex_validated ex_subsection_abc = Inr (JStr ''ERROR'')"
    by (simp add: getSubsectionStatus_def getStatus_def getValidationStatusByTag_def get_prop_def
        ex_validated_def ex_subsection_abc_def ex_env_sel ex_severity_def empty_form_def)
  have d: "getSubsectionStatus ex_env ex_validated ex_subsection_d = Inr (JStr ''OK'')"
    by (simp add: getSubsectionStatus_def getStatus_def getValidationStatusByTag_def get_prop_def
        ex_validated_def ex_subsection_d_def ex_env_sel ex_severity_def empty_form_def)
  have s: "getSectionStatus ex_env ex_validated
      \<lparr>sortOrder = None, subsections = Some [ex_subsection_d, ex_subsection_abc]\<rparr>
     = Inr (JStr ''ERROR'')"
    by (simp add: getSectionStatus_def getStatus_def a d ex_env_sel ex_severity_def)
  have ok: "STATUS_OK ex_env = JStr ''OK''" by (simp add: ex_env_sel)
  note r = status_rollup[OF sev, of ex_validated _ "\<lparr>sortOrder = None,
      subsections = Some [ex_subsection_d, ex_subsection_abc]\<rparr>"]
  from r[of ex_subsection_abc] a
  have 1: "first_most_severe ex_severity
      [JStr ''OK'', JStr ''WARNING'', JStr ''ERROR'', JStr ''WARNING''] (JStr ''ERROR'')"
    by (simp add: ok ex_validated_def ex_subsection_abc_def empty_form_def)
  from r[of ex_subsection_d] d
  have 2: "first_most_severe ex_severity [JStr ''OK'', JStr ''fine''] (JStr ''OK'')"
    by (simp add: ok ex_validated_def ex_subsection_d_def empty_form_def)
  from r[of ex_subsection_d] s
  have 3: "first_most_severe ex_severity [JStr ''OK'', JStr ''OK'', JStr ''ERROR''] (JStr ''ERROR'')"
    by (auto simp: ok a d)
  from sev a d s 1 2 3 show ?thesis by (intro conjI)
qed


section \<open>The cascades\<close>

lemma runConditions_append:
  "runConditions env t f (cs1 @ cs2) st =
     (case runConditions env t f cs1 st of Inl e \<Rightarrow> Inl e | Inr s \<Rightarrow> runConditions env t f cs2 s)"
  by (induction cs1 arbitrary: st) (auto simp: Let_def split: sum.splits)

lemma runConditions_none_true:
  "\<forall>c \<in> set cs. c \<noteq> JUndefined \<and> c \<noteq> JNull \<and>
      \<not> truthy (evalCondition env (js_prop c ''condition'') s)
   \<Longrightarrow> runConditions env t f cs s = Inr s"
  by (induction cs) (auto simp: get_prop_def)

lemma flatten_arrays: "flatten (map JArr css) = concat css"
  by (induction css) simp_all

text \<open>
  The list that is run: the elements of the field's own array of conditions; for a field
  without conditions of its own whose options each carry an array, the arrays of the
  options one after the other.
\<close>

lemma conditions_of_own:
  "defaultValueConditions (props f) = JArr cs \<Longrightarrow> conditions_of f = cs"
  by (simp add: conditions_of_def)

lemma conditions_of_options:
  assumes "\<not> truthy (defaultValueConditions (props f))" and "options f = Some opts"
    and "map (\<lambda>opt. odefaultValueConditions (oprops opt)) opts = map JArr css"
  shows "conditions_of f = concat css"
  using assms by (simp add: conditions_of_def flatten_arrays)

text \<open>
  Where every entry of the list is a condition, the list is run in order and to the end:
  when the conditions before \<open>c\<close> have run (whatever they wrote), the guard of \<open>c\<close> holds
  and no later guard holds, the call returns the state that the write for \<open>c\<close> leaves,
  and the model value at the tag is the value written for \<open>c\<close> (for an ARRAY field, what
  the update handler makes of it).
\<close>

lemma conditions_run_to_the_end:
  assumes "getField st t = Some f"
    and "defaultValueConditions (props f) = JArr (cs1 @ c # cs2) \<or>
         (\<not> truthy (defaultValueConditions (props f)) \<and> options f = Some opts \<and>
          map (\<lambda>opt. odefaultValueConditions (oprops opt)) opts = map JArr css \<and>
          concat css = cs1 @ c # cs2)"
    and "runConditions env t f cs1 st = Inr s1"
    and "c \<noteq> JUndefined \<and> c \<noteq> JNull"
    and "truthy (evalCondition env (js_prop c ''condition'') s1)"
    and "if ftype (props f) = Some ARRAY
         then component (props f) \<noteq> JUndefined \<and> component (props f) \<noteq> JNull \<and>
              onUpdate env f (getModelValue s1 t) (evalExpression env (js_prop c ''expression'') s1) = Inr w
         else w = evalExpression env (js_prop c ''expression'') s1"
    and "setModelValue env t w f s1 = Inr s2"
    and "\<forall>c' \<in> set cs2. c' \<noteq> JUndefined \<and> c' \<noteq> JNull \<and>
           \<not> truthy (evalCondition env (js_prop c' ''condition'') s2)"
    and "t \<notin> set (field_tags f)"
  shows "evaluateDefaultValueConditions env [t] st = Inr s2 \<and> getModelValue s2 t = w"
proof -
  from assms(2) have cf: "conditions_of f = cs1 @ c # cs2"
    using conditions_of_own conditions_of_options by metis
  have "runConditions env t f (c # cs2) s1 = runConditions env t f cs2 s2"
    using assms(4-7) by (auto simp: get_prop_def split: if_splits)
  also have "\<dots> = Inr s2" using assms(8) by (rule runConditions_none_true)
  finally have "runConditions env t f (cs1 @ c # cs2) st = Inr s2"
    using assms(3) by (simp add: runConditions_append)
  then have run: "evaluateDefaultValueConditions env [t] st = Inr s2"
    using assms(1) cf by simp
  from assms(7) have so: "same_outside (set (field_tags f)) (set (field_refs f))
      (storeValue t w (props f) s1) s2"
    by (rule footprint(1))
  with assms(9) have "model s2 t = model (storeValue t w (props f) s1) t"
    by (simp add: same_outside_def)
  then have "getModelValue s2 t = w"
    by (cases "w = JUndefined") (simp_all add: storeValue_def getModelValue_def modelValue_def)
  with run show ?thesis by simp
qed

text \<open>
  The radio field of the cascade, each option with its condition: both guards hold, both
  values are written in order, and the value of the later condition is the one left.
\<close>

lemma conditions_run_to_the_end_example:
  "evaluateDefaultValueConditions ex_env [''totalRadio'']
      (ex_cascade\<lparr>model := (model ex_cascade)(''total'' \<mapsto> JObj [(''value'', JNum 12)])\<rparr>)
     = Inr (storeValue ''totalRadio'' (JStr ''high'') (plain_props 4 STRING)
             (storeValue ''totalRadio'' (JStr ''low'') (plain_props 4 STRING)
               (ex_cascade\<lparr>model := (model ex_cascade)(''total'' \<mapsto> JObj [(''value'', JNum 12)])\<rparr>))) \<and>
   getModelValue (storeValue ''totalRadio'' (JStr ''high'') (plain_props 4 STRING)
             (storeValue ''totalRadio'' (JStr ''low'') (plain_props 4 STRING)
               (ex_cascade\<lparr>model := (model ex_cascade)(''total'' \<mapsto> JObj [(''value'', JNum 12)])\<rparr>)))
      ''totalRadio'' = JStr ''high'' \<and>
   truthy (evalCondition ex_env (JBool True)
      (ex_cascade\<lparr>model := (model ex_cascade)(''total'' \<mapsto> JObj [(''value'', JNum 12)])\<rparr>))"
proof -
  let ?st = "ex_cascade\<lparr>model := (model ex_cascade)(''total'' \<mapsto> JObj [(''value'', JNum 12)])\<rparr>"
  let ?s1 = "storeValue ''totalRadio'' (JStr ''low'') (plain_props 4 STRING) ?st"
  let ?s2 = "storeValue ''totalRadio'' (JStr ''high'') (plain_props 4 STRING) ?s1"
  let ?low = "JObj [(''condition'', JBool True), (''expression'', JStr ''low'')]"
  let ?high = "JObj [(''condition'', JArr [JStr ''total'', JNum 10]), (''expression'', JStr ''high'')]"
  let ?opts = "[FOption \<lparr>oref = 10, oid = JStr ''low'', odefaultValueConditions = JArr [?low],
                       oparent = None\<rparr> None,
                FOption \<lparr>oref = 11, oid = JStr ''high'', odefaultValueConditions = JArr [?high],
                       oparent = None\<rparr> None]"
  have 1: "getField ?st ''totalRadio'' = Some ex_radio"
    by (simp add: getField_def ex_cascade_def)
  have 2: "defaultValueConditions (props ex_radio) = JArr ([?low] @ ?high # []) \<or>
         (\<not> truthy (defaultValueConditions (props ex_radio)) \<and> options ex_radio = Some ?opts \<and>
          map (\<lambda>opt. odefaultValueConditions (oprops opt)) ?opts = map JArr [[?low], [?high]] \<and>
          concat [[?low], [?high]] = [?low] @ ?high # [])"
    by (simp add: ex_radio_def plain_props_def)
  have 3: "runConditions ex_env ''totalRadio'' ex_radio [?low] ?st = Inr ?s1"
    by (simp add: ex_radio_def get_prop_def ex_env_sel ex_evalCondition_def ex_evalExpression_def
        plain_props_def toString_def)
  have 4: "?high \<noteq> JUndefined \<and> ?high \<noteq> JNull" by simp
  have 5: "truthy (evalCondition ex_env (js_prop ?high ''condition'') ?s1)"
    by (simp add: ex_env_sel ex_evalCondition_def getModelValue_def storeValue_def ex_cascade_def)
  have 6: "if ftype (props ex_radio) = Some ARRAY
         then component (props ex_radio) \<noteq> JUndefined \<and> component (props ex_radio) \<noteq> JNull \<and>
              onUpdate ex_env ex_radio (getModelValue ?s1 ''totalRadio'')
                (evalExpression ex_env (js_prop ?high ''expression'') ?s1) = Inr (JStr ''high'')
         else JStr ''high'' = evalExpression ex_env (js_prop ?high ''expression'') ?s1"
    by (simp add: ex_radio_def plain_props_def ex_env_sel ex_evalExpression_def)
  have 7: "setModelValue ex_env ''totalRadio'' (JStr ''high'') ex_radio ?s1 = Inr ?s2"
    by (simp add: ex_radio_def toString_def)
  have 8: "\<forall>c' \<in> set []. c' \<noteq> JUndefined \<and> c' \<noteq> JNull \<and>
           \<not> truthy (evalCondition ex_env (js_prop c' ''condition'') ?s2)"
    by simp
  have 9: "''totalRadio'' \<notin> set (field_tags ex_radio)"
    by (simp add: ex_radio_def)
  have "truthy (evalCondition ex_env (JBool True) ?st)"
    by (simp add: ex_env_sel ex_evalCondition_def)
  with conditions_run_to_the_end[OF 1 2 3 4 5 6 7 8 9] show ?thesis by simp
qed

text \<open>
  C5. The conditions of a field without \<open>defaultValueConditions\<close> of its own are meant to
  be those of its options, flattened, each condition whose guard holds producing a
  write. On the code the flattened list keeps an undefined entry for every option that
  carries no conditions, and reading the \<open>condition\<close> of that entry raises a TypeError.
  The radio field \<open>totalRadio\<close> has the options \<open>low\<close>, with no conditions, and \<open>high\<close>,
  with one condition whose guard holds (\<open>total\<close> is 12): the list is undefined followed
  by that condition, the call raises the TypeError and nothing is written for the tag.
  The calculation cascade that leads to the call (the field \<open>a\<close> changed, \<open>total\<close>
  recalculated) raises it as well.
\<close>

theorem option_without_conditions_raises:
  "getField ex_partial ''totalRadio'' = Some ex_radio_partial \<and>
   defaultValueConditions (props ex_radio_partial) = JUndefined \<and>
   conditions_of ex_radio_partial =
     [JUndefined,
      JObj [(''condition'', JArr [JStr ''total'', JNum 10]), (''expression'', JStr ''high'')]] \<and>
   truthy (evalCondition ex_env (JArr [JStr ''total'', JNum 10]) ex_partial) \<and>
   evaluateDefaultValueConditions ex_env [''totalRadio''] ex_partial = Inl TypeError \<and>
   getModelValue ex_partial ''totalRadio'' = JUndefined \<and>
   calculateFields ex_env ex_source
      (ex_cascade\<lparr>fields_by_tag := (fields_by_tag ex_cascade)(''totalRadio'' \<mapsto> ex_radio_partial)\<rparr>)
     = Inl TypeError"
proof -
  have fld: "getField ex_partial ''totalRadio'' = Some ex_radio_partial"
    by (simp add: getField_def ex_partial_def)
  have own: "defaultValueConditions (props ex_radio_partial) = JUndefined"
    by (simp add: ex_radio_partial_def plain_props_def)
  have lst: "conditions_of ex_radio_partial =
     [JUndefined,
      JObj [(''condition'', JArr [JStr ''total'', JNum 10]), (''expression'', JStr ''high'')]]"
    by (simp add: conditions_of_def ex_radio_partial_def plain_props_def)
  have guard: "truthy (evalCondition ex_env (JArr [JStr ''total'', JNum 10]) ex_partial)"
    by (simp add: ex_env_sel ex_evalCondition_def getModelValue_def ex_partial_def)
  have run: "evaluateDefaultValueConditions ex_env [''totalRadio''] ex_partial = Inl TypeError"
    by (simp add: fld lst get_prop_def)
  have val: "getModelValue ex_partial ''totalRadio'' = JUndefined"
    by (simp add: getModelValue_def ex_partial_def ex_cascade_def)
  let ?st = "ex_cascade\<lparr>fields_by_tag := (fields_by_tag ex_cascade)(''totalRadio'' \<mapsto> ex_radio_partial)\<rparr>"
  let ?s0 = "storeValue ''total'' (JNum 12) (plain_props 3 NUMBER) ?st"
  have e: "evalExpression ex_env (JArr [JStr ''a'', JStr ''b'']) ?st = JNum 12"
    by (simp add: ex_env_sel ex_evalExpression_def getModelValue_def ex_cascade_def)
  have w: "setModelValue ex_env ''total'' (JNum 12) (leaf 3 NUMBER) ?st = Inr ?s0"
    by (simp add: leaf_def)
  have g: "getField ?s0 ''totalRadio'' = Some ex_radio_partial"
    "getField ?st ''total'' = Some (leaf 3 NUMBER)"
    "defaultValueTriggerMap (defn ?s0) = Some [''total'' \<mapsto> [''totalRadio'']]"
    "getCalcExpressionByTag ?st ''total'' = JArr [JStr ''a'', JStr ''b'']"
    "calcTriggerMap (defn ex_cascade) = Some [''id-a'' \<mapsto> [''total''], ''id-b'' \<mapsto> [''total'']]"
    by (simp_all add: getField_def getCalcExpressionByTag_def storeValue_def ex_cascade_def)
  have rc: "runConditions ex_env ''totalRadio'' ex_radio_partial (conditions_of ex_radio_partial) ?s0
      = Inl TypeError"
    by (simp add: lst get_prop_def)
  have t: "triggerDefaultValueEvaluation ex_env ''total'' ?s0 = Inl TypeError"
    by (simp add: triggerDefaultValueEvaluation_def g rc)
  have src: "truthy (calc (props ex_source))" "js_String ex_env (fid (props ex_source)) = ''id-a''"
    by (simp_all add: ex_source_def plain_props_def)
  have casc: "calculateFields ex_env ex_source ?st = Inl TypeError"
    by (simp add: calculateFields_def src g e w t)
  from fld own lst guard run val casc show ?thesis by (intro conjI)
qed


lemma calculateTags_forEach:
  "calculateTags env ts st = forEach_err (calculate_tag env) ts st"
  by (induction ts arbitrary: st) (auto simp: calculate_tag_def split: option.splits sum.splits)

text \<open>
  C1. For a field whose \<open>calc\<close> flag is set, \<open>calculateFields\<close> goes through the tag
  list \<open>calcTriggerMap[field.id]\<close> in order and, for each tag that has an expression in
  \<open>calcExpressionMap\<close>, evaluates the expression on the instance, writes the result with
  \<open>setModelValue(tag, value, getField(tag))\<close> and then runs
  \<open>triggerDefaultValueEvaluation(tag)\<close> on what the write left, before it goes to the
  next tag. For a field without the flag it returns the instance unchanged.
\<close>

theorem calculateFields_cascade:
  "calculateFields env f st =
     (if truthy (calc (props f))
      then (case calcTriggerMap (defn st) of
              None \<Rightarrow> Inl TypeError
            | Some m \<Rightarrow>
                forEach_err
                  (\<lambda>t s. if \<not> truthy (getCalcExpressionByTag s t) then Inr s
                     else case getField s t of
                            None \<Rightarrow> Inl TypeError
                          | Some g \<Rightarrow>
                              (case setModelValue env t
                                      (evalExpression env (getCalcExpressionByTag s t) s) g s of
                                 Inl e \<Rightarrow> Inl e
                               | Inr written \<Rightarrow> triggerDefaultValueEvaluation env t written))
                  (opt_list (m (js_String env (fid (props f))))) st)
      else Inr st)"
proof -
  have "calculate_tag env =
    (\<lambda>t s. if \<not> truthy (getCalcExpressionByTag s t) then Inr s
       else case getField s t of
              None \<Rightarrow> Inl TypeError
            | Some g \<Rightarrow>
                (case setModelValue env t (evalExpression env (getCalcExpressionByTag s t) s) g s of
                   Inl e \<Rightarrow> Inl e
                 | Inr written \<Rightarrow> triggerDefaultValueEvaluation env t written))"
    by (intro ext) (simp add: calculate_tag_def)
  moreover have "\<And>m k. (case m k of None \<Rightarrow> [] | Some tagList \<Rightarrow> tagList) = opt_list (m k)"
    by (simp split: option.splits)
  ultimately show ?thesis
    by (simp add: calculateFields_def calculateTags_forEach split: option.splits)
qed

theorem calculateFields_cascade_witness:
  "calculateFields ex_env ex_source ex_cascade
     = Inr (storeValue ''totalRadio'' (JStr ''high'') (plain_props 4 STRING)
             (storeValue ''totalRadio'' (JStr ''low'') (plain_props 4 STRING)
               (storeValue ''total'' (JNum 12) (plain_props 3 NUMBER) ex_cascade))) \<and>
   getModelValue (storeValue ''totalRadio'' (JStr ''high'') (plain_props 4 STRING)
             (storeValue ''totalRadio'' (JStr ''low'') (plain_props 4 STRING)
               (storeValue ''total'' (JNum 12) (plain_props 3 NUMBER) ex_cascade))) ''total'' = JNum 12 \<and>
   getModelValue (storeValue ''totalRadio'' (JStr ''high'') (plain_props 4 STRING)
             (storeValue ''totalRadio'' (JStr ''low'') (plain_props 4 STRING)
               (storeValue ''total'' (JNum 12) (plain_props 3 NUMBER) ex_cascade))) ''totalRadio''
     = JStr ''high'' \<and>
   calculateFields ex_env (leaf 3 NUMBER) ex_cascade = Inr ex_cascade"
proof -
  have e: "evalExpression ex_env (JArr [JStr ''a'', JStr ''b'']) ex_cascade = JNum 12"
    by (simp add: ex_env_sel ex_evalExpression_def getModelValue_def ex_cascade_def)
  let ?s0 = "storeValue ''total'' (JNum 12) (plain_props 3 NUMBER) ex_cascade"
  let ?s1 = "storeValue ''totalRadio'' (JStr ''low'') (plain_props 4 STRING) ?s0"
  let ?s2 = "storeValue ''totalRadio'' (JStr ''high'') (plain_props 4 STRING) ?s1"
  have w: "setModelValue ex_env ''total'' (JNum 12) (leaf 3 NUMBER) ex_cascade = Inr ?s0"
    by (simp add: leaf_def)
  have g: "getField ?s0 ''totalRadio'' = Some ex_radio" "getField ex_cascade ''total'' = Some (leaf 3 NUMBER)"
    "defaultValueTriggerMap (defn ?s0) = Some [''total'' \<mapsto> [''totalRadio'']]"
    "getCalcExpressionByTag ex_cascade ''total'' = JArr [JStr ''a'', JStr ''b'']"
    "calcTriggerMap (defn ex_cascade) = Some [''id-a'' \<mapsto> [''total''], ''id-b'' \<mapsto> [''total'']]"
    by (simp_all add: getField_def getCalcExpressionByTag_def storeValue_def ex_cascade_def)
  have c: "conditions_of ex_radio =
      [JObj [(''condition'', JBool True), (''expression'', JStr ''low'')],
       JObj [(''condition'', JArr [JStr ''total'', JNum 10]), (''expression'', JStr ''high'')]]"
    by (simp add: conditions_of_def ex_radio_def plain_props_def)
  have g0: "truthy (evalCondition ex_env (JBool True) ?s0)"
    by (simp add: ex_env_sel ex_evalCondition_def)
  have g1: "truthy (evalCondition ex_env (JArr [JStr ''total'', JNum 10]) ?s1)"
    by (simp add: ex_env_sel ex_evalCondition_def getModelValue_def storeValue_def modelValue_def
        plain_props_def)
  have e0: "evalExpression ex_env (JStr ''low'') ?s0 = JStr ''low''"
    and e1: "evalExpression ex_env (JStr ''high'') ?s1 = JStr ''high''"
    by (simp_all add: ex_env_sel ex_evalExpression_def)
  have ty: "ftype (props ex_radio) \<noteq> Some ARRAY"
    by (simp add: ex_radio_def plain_props_def)
  have r1: "setModelValue ex_env ''totalRadio'' (JStr ''low'') ex_radio ?s0 = Inr ?s1"
    and r2: "setModelValue ex_env ''totalRadio'' (JStr ''high'') ex_radio ?s1 = Inr ?s2"
    by (simp_all add: ex_radio_def)
  have rc: "runConditions ex_env ''totalRadio'' ex_radio (conditions_of ex_radio) ?s0 = Inr ?s2"
    by (simp add: c get_prop_def g0 g1 e0 e1 ty r1 r2)
  have t: "triggerDefaultValueEvaluation ex_env ''total'' ?s0 = Inr ?s2"
    by (simp add: triggerDefaultValueEvaluation_def g rc)
  have src: "truthy (calc (props ex_source))" "js_String ex_env (fid (props ex_source)) = ''id-a''"
    "\<not> truthy (calc (props (leaf 3 NUMBER)))"
    by (simp_all add: ex_source_def leaf_def plain_props_def)
  have a: "calculateFields ex_env ex_source ex_cascade = Inr ?s2"
    by (subst calculateFields_cascade) (simp add: src g e w t)
  have b: "calculateFields ex_env (leaf 3 NUMBER) ex_cascade = Inr ex_cascade"
    by (subst calculateFields_cascade) (simp add: src)
  have "getModelValue ?s2 ''total'' = JNum 12" "getModelValue ?s2 ''totalRadio'' = JStr ''high''"
    by (simp_all add: getModelValue_def storeValue_def modelValue_def plain_props_def)
  with a b show ?thesis by simp
qed


section \<open>Construction\<close>

lemma addComponent_frame:
  assumes "addComponentToUiSchemaAndReturnUiField t ty st = Inr (ui, st1)"
  shows "model st1 = model st" and "dirty st1 = dirty st"
    and "fields_by_tag st1 = fields_by_tag st"
    and "schema (defn st1) = schema (defn st)"
    and "calcExpressionMap (defn st1) = calcExpressionMap (defn st)"
    and "calcTriggerMap (defn st1) = calcTriggerMap (defn st)"
    and "defaultValueTriggerMap (defn st1) = defaultValueTriggerMap (defn st)"
  using assms
  by (auto simp: addComponentToUiSchemaAndReturnUiField_def Let_def split: option.splits)

lemma decorateField_Inr:
  assumes "decorateField env (Field p cs os) t key st = Inr (f', st')"
  shows "\<exists>ui st1 p' cs' st2 os' st3.
     \<not> already_exists st t \<and> ftype p \<noteq> None \<and>
     (if truthy key then addComponentToUiSchemaAndReturnUiField t key st
      else Inr (case getUiSchemaField st t of None \<Rightarrow> JObj [] | Some kvs \<Rightarrow> JObj kvs, st))
        = Inr (ui, st1) \<and>
     decorateProps env (Field p cs os) ui = Inr p' \<and>
     (case cs of None \<Rightarrow> Inr (None, st1)
      | Some children \<Rightarrow>
          (case decorateChildren env (fref p) children st1 of
             Inl e \<Rightarrow> Inl e
           | Inr (children', st2) \<Rightarrow> Inr (Some children', st2))) = Inr (cs', st2) \<and>
     (case os of None \<Rightarrow> Inr (None, st2)
      | Some opts \<Rightarrow>
          (case decorateOptions env (fref p) opts st2 of
             Inl e \<Rightarrow> Inl e
           | Inr (opts', st3) \<Rightarrow> Inr (Some opts', st3))) = Inr (os', st3) \<and>
     f' = Field p' cs' os' \<and>
     st' = st3\<lparr>fields_by_tag := (fields_by_tag st3)(t \<mapsto> Field p' cs' os')\<rparr>"
proof -
  from assms have a: "\<not> already_exists st t" and b: "ftype p \<noteq> None"
    by (auto split: if_splits)
  from assms a b obtain ui st1 where
    u: "(if truthy key then addComponentToUiSchemaAndReturnUiField t key st
         else Inr (case getUiSchemaField st t of None \<Rightarrow> JObj [] | Some kvs \<Rightarrow> JObj kvs, st))
        = Inr (ui, st1)"
    by (auto split: sum.splits)
  from assms a b u obtain p' where pp: "decorateProps env (Field p cs os) ui = Inr p'"
    by (auto split: sum.splits)
  from assms a b u pp obtain cs' st2 where
    c: "(case cs of None \<Rightarrow> Inr (None, st1)
         | Some children \<Rightarrow>
             (case decorateChildren env (fref p) children st1 of
                Inl e \<Rightarrow> Inl e
              | Inr (children', st2) \<Rightarrow> Inr (Some children', st2))) = Inr (cs', st2)"
    by (auto split: sum.splits)
  from assms a b u pp c obtain os' st3 where
    o: "(case os of None \<Rightarrow> Inr (None, st2)
         | Some opts \<Rightarrow>
             (case decorateOptions env (fref p) opts st2 of
                Inl e \<Rightarrow> Inl e
              | Inr (opts', st3) \<Rightarrow> Inr (Some opts', st3))) = Inr (os', st3)"
    by (auto split: sum.splits)
  from assms a b u pp c o have r: "f' = Field p' cs' os'"
    "st' = st3\<lparr>fields_by_tag := (fields_by_tag st3)(t \<mapsto> Field p' cs' os')\<rparr>"
    by auto
  from a b u pp c o r show ?thesis by blast
qed

lemma decorate_frame:
  "decorateField env f t key st = Inr (f', st') \<Longrightarrow>
     model st' = model st \<and> dirty st' = dirty st \<and>
     (if truthy key
      then \<exists>ui st1. addComponentToUiSchemaAndReturnUiField t key st = Inr (ui, st1) \<and>
             defn st' = defn st1
      else defn st' = defn st)"
  "decorateOptions env r opts st = Inr (opts', st') \<Longrightarrow>
     model st' = model st \<and> dirty st' = dirty st \<and> defn st' = defn st"
  "decorateChildren env r cs st = Inr (cs', st') \<Longrightarrow>
     model st' = model st \<and> dirty st' = dirty st \<and> defn st' = defn st"
proof (induction env f t key st and env r opts st and env r cs st
    arbitrary: f' st' and opts' st' and cs' st'
    rule: decorateField_decorateOptions_decorateChildren.induct)
  case (1 env p cs os t key st)
  from decorateField_Inr[OF "1.prems"]
  obtain ui st1 p' cs' st2 os' st3 where
    a: "\<not> already_exists st t" and b: "ftype p \<noteq> None"
    and u: "(if truthy key then addComponentToUiSchemaAndReturnUiField t key st
      else Inr (case getUiSchemaField st t of None \<Rightarrow> JObj [] | Some kvs \<Rightarrow> JObj kvs, st))
        = Inr (ui, st1)"
    and pp: "decorateProps env (Field p cs os) ui = Inr p'"
    and c: "(case cs of None \<Rightarrow> Inr (None, st1)
      | Some children \<Rightarrow>
          (case decorateChildren env (fref p) children st1 of
             Inl e \<Rightarrow> Inl e
           | Inr (children', st2) \<Rightarrow> Inr (Some children', st2))) = Inr (cs', st2)"
    and o: "(case os of None \<Rightarrow> Inr (None, st2)
      | Some opts \<Rightarrow>
          (case decorateOptions env (fref p) opts st2 of
             Inl e \<Rightarrow> Inl e
           | Inr (opts', st3) \<Rightarrow> Inr (Some opts', st3))) = Inr (os', st3)"
    and r: "st' = st3\<lparr>fields_by_tag := (fields_by_tag st3)(t \<mapsto> Field p' cs' os')\<rparr>"
    by blast
  have f1: "model st1 = model st \<and> dirty st1 = dirty st \<and>
     (if truthy key
      then \<exists>ui st1'. addComponentToUiSchemaAndReturnUiField t key st = Inr (ui, st1') \<and>
             defn st1 = defn st1'
      else defn st1 = defn st)"
    using u addComponent_frame(1,2) by (auto split: if_splits)
  have f2: "model st2 = model st1 \<and> dirty st2 = dirty st1 \<and> defn st2 = defn st1"
  proof (cases cs)
    case None
    then show ?thesis using c by simp
  next
    case (Some children)
    then obtain children' where d: "decorateChildren env (fref p) children st1 = Inr (children', st2)"
      using c by (auto split: sum.splits)
    from "1.IH"(1)[OF a b u refl pp Some d] show ?thesis .
  qed
  have f3: "model st3 = model st2 \<and> dirty st3 = dirty st2 \<and> defn st3 = defn st2"
  proof (cases os)
    case None
    then show ?thesis using o by simp
  next
    case (Some opts)
    then obtain opts' where d: "decorateOptions env (fref p) opts st2 = Inr (opts', st3)"
      using o by (auto split: sum.splits)
    from "1.IH"(2)[OF a b u refl pp c refl Some d] show ?thesis .
  qed
  from f1 f2 f3 r show ?case by (auto split: if_splits)
next
  case (2 env r st)
  then show ?case by simp
next
  case (3 env r q ofs opts st)
  from "3.prems" obtain ofs' st1 where
    c: "(case ofs of None \<Rightarrow> Inr (None, st)
      | Some children \<Rightarrow>
          (case decorateChildren env (oref q) children st of
             Inl e \<Rightarrow> Inl e
           | Inr (children', st1) \<Rightarrow> Inr (Some children', st1))) = Inr (ofs', st1)"
    by (auto split: sum.splits)
  with "3.prems" obtain opts'' where d: "decorateOptions env r opts st1 = Inr (opts'', st')"
    by (auto split: sum.splits)
  have "model st1 = model st \<and> dirty st1 = dirty st \<and> defn st1 = defn st"
  proof (cases ofs)
    case None
    then show ?thesis using c by simp
  next
    case (Some children)
    then obtain children' where "decorateChildren env (oref q) children st = Inr (children', st1)"
      using c by (auto split: sum.splits)
    from "3.IH"(1)[OF Some this] show ?thesis .
  qed
  with "3.IH"(2)[OF c refl d] show ?case by simp
next
  case (4 env r st)
  then show ?case by simp
next
  case (5 env r t child rest st)
  from "5.prems" obtain child' st1 where
    c: "decorateField env child t JUndefined st = Inr (child', st1)"
    by (auto split: sum.splits)
  with "5.prems" obtain rest' where
    d: "decorateChildren env r rest
          (st1\<lparr>fields_by_tag := (fields_by_tag st1)(t \<mapsto> set_parent r child')\<rparr>) = Inr (rest', st')"
    by (auto split: sum.splits)
  from "5.IH"(1)[OF c] "5.IH"(2)[OF c refl d] show ?case by simp
qed

lemma decorateSubsectionFields_frame:
  "decorateSubsectionFields env fs st = Inr (fs', st') \<Longrightarrow>
     model st' = model st \<and> dirty st' = dirty st \<and> defn st' = defn st"
proof (induction fs arbitrary: st fs')
  case Nil
  then show ?case by simp
next
  case (Cons a fs)
  obtain t f where a: "a = (t, f)" by (cases a)
  from Cons.prems a obtain f' st1 rest' where
    d: "decorateField env f t JUndefined st = Inr (f', st1)"
    and r: "decorateSubsectionFields env fs st1 = Inr (rest', st')"
    by (auto split: sum.splits prod.splits)
  from decorate_frame(1)[OF d] Cons.IH[OF r] show ?case by simp
qed

lemma decorateSubsections_frame:
  "decorateSubsections env subs st = Inr (subs', st') \<Longrightarrow>
     model st' = model st \<and> dirty st' = dirty st \<and> defn st' = defn st"
proof (induction subs arbitrary: st subs')
  case Nil
  then show ?case by simp
next
  case (Cons sub subs)
  from Cons.prems obtain sub' st1 rest' where
    d: "(case subsection_fields sub of
              None \<Rightarrow> Inr (sub, st)
            | Some fs \<Rightarrow>
                (case decorateSubsectionFields env fs st of
                   Inl e \<Rightarrow> Inl e
                 | Inr (fs', st1) \<Rightarrow> Inr (sub\<lparr>subsection_fields := Some fs'\<rparr>, st1))) = Inr (sub', st1)"
    and r: "decorateSubsections env subs st1 = Inr (rest', st')"
    by (auto split: sum.splits prod.splits)
  from d have "model st1 = model st \<and> dirty st1 = dirty st \<and> defn st1 = defn st"
    by (auto split: option.splits sum.splits prod.splits dest: decorateSubsectionFields_frame)
  with Cons.IH[OF r] show ?case by simp
qed

lemma decorateSections_frame:
  "decorateSections env secs st = Inr (secs', st') \<Longrightarrow>
     model st' = model st \<and> dirty st' = dirty st \<and> defn st' = defn st \<and>
     map sortOrder secs' = map sortOrder secs"
proof (induction secs arbitrary: st secs')
  case Nil
  then show ?case by auto
next
  case (Cons sec secs)
  from Cons.prems obtain sec' st1 rest' where
    d: "(case subsections sec of
              None \<Rightarrow> Inr (sec, st)
            | Some subs \<Rightarrow>
                (case decorateSubsections env subs st of
                   Inl e \<Rightarrow> Inl e
                 | Inr (subs', st1) \<Rightarrow> Inr (sec\<lparr>subsections := Some subs'\<rparr>, st1))) = Inr (sec', st1)"
    and r: "decorateSections env secs st1 = Inr (rest', st')"
    and s: "secs' = sec' # rest'"
    by (auto split: sum.splits prod.splits)
  from d have "model st1 = model st \<and> dirty st1 = dirty st \<and> defn st1 = defn st \<and>
      sortOrder sec' = sortOrder sec"
    by (auto split: option.splits sum.splits prod.splits dest: decorateSubsections_frame)
  with Cons.IH[OF r] s show ?case by simp
qed

lemma sortOrder_le_total: "sortOrder_le a b \<or> sortOrder_le b a"
  by (auto simp: sortOrder_le_def split: option.splits)

lemma sortOrder_le_trans: "sortOrder_le a b \<Longrightarrow> sortOrder_le b c \<Longrightarrow> sortOrder_le a c"
  by (auto simp: sortOrder_le_def split: option.splits)

lemma set_insert_section: "set (insert_section x ys) = insert x (set ys)"
  by (induction ys) auto

lemma sorted_insert_section:
  "sorted_wrt (\<lambda>a b. sortOrder_le (sortOrder a) (sortOrder b)) ys \<Longrightarrow>
   sorted_wrt (\<lambda>a b. sortOrder_le (sortOrder a) (sortOrder b)) (insert_section x ys)"
proof (induction ys)
  case Nil
  then show ?case by simp
next
  case (Cons y ys)
  show ?case
  proof (cases "sortOrder_le (sortOrder y) (sortOrder x)")
    case True
    with Cons show ?thesis by (auto simp: set_insert_section)
  next
    case False
    then have xy: "sortOrder_le (sortOrder x) (sortOrder y)"
      using sortOrder_le_total by blast
    with Cons.prems have "\<forall>z \<in> set ys. sortOrder_le (sortOrder x) (sortOrder z)"
      by (auto intro: sortOrder_le_trans)
    with Cons.prems xy False show ?thesis by simp
  qed
qed

lemma sorted_sortBy_sortOrder:
  "sorted_wrt (\<lambda>a b. sortOrder_le (sortOrder a) (sortOrder b)) (sortBy_sortOrder xs)"
proof -
  have "sorted_wrt (\<lambda>a b. sortOrder_le (sortOrder a) (sortOrder b)) acc \<Longrightarrow>
      sorted_wrt (\<lambda>a b. sortOrder_le (sortOrder a) (sortOrder b))
        (foldl (\<lambda>acc x. insert_section x acc) acc xs)" for acc
    by (induction xs arbitrary: acc) (simp_all add: sorted_insert_section)
  from this[of "[]"] show ?thesis by (simp add: sortBy_sortOrder_def)
qed

lemma sorted_wrt_sortOrder_map:
  "sorted_wrt (\<lambda>a b. sortOrder_le (sortOrder a) (sortOrder b)) xs
     = sorted_wrt sortOrder_le (map sortOrder xs)"
  by (simp add: sorted_wrt_map)

lemma initFields_frame:
  assumes "initFields env st = Inr st'"
  shows "model st' = model st" and "dirty st' = dirty st" and "defn st' = defn st"
    and "sorted_wrt (\<lambda>a b. sortOrder_le (sortOrder a) (sortOrder b)) (sections st')"
proof -
  from assms obtain sch where sch: "schema (defn st) = Some sch"
    by (auto simp: initFields_def split: option.splits)
  let ?copy = "map clone_section (sortBy_sortOrder (opt_list (schema_sections sch)))"
  have ol: "(case schema_sections sch of None \<Rightarrow> [] | Some secs \<Rightarrow> secs) = opt_list (schema_sections sch)"
    by (cases "schema_sections sch") simp_all
  from assms sch obtain secs' st1 where
    d: "decorateSections env ?copy (st\<lparr>sections := ?copy\<rparr>) = Inr (secs', st1)"
    and r: "st' = st1\<lparr>sections := secs'\<rparr>"
    by (auto simp: initFields_def Let_def ol split: sum.splits prod.splits)
  from decorateSections_frame[OF d] r
  show "model st' = model st" "dirty st' = dirty st" "defn st' = defn st"
    by simp_all
  have "map sortOrder ?copy = map sortOrder (sortBy_sortOrder (opt_list (schema_sections sch)))"
    by (simp add: clone_section_def)
  with decorateSections_frame[OF d] have "map sortOrder secs'
      = map sortOrder (sortBy_sortOrder (opt_list (schema_sections sch)))"
    by simp
  with sorted_sortBy_sortOrder[of "opt_list (schema_sections sch)"] r
  show "sorted_wrt (\<lambda>a b. sortOrder_le (sortOrder a) (sortOrder b)) (sections st')"
    by (simp add: sorted_wrt_sortOrder_map)
qed

lemma addComponent_uiSchema:
  assumes "addComponentToUiSchemaAndReturnUiField t ty st = Inr (ui, st1)"
  shows "\<exists>u. uiSchema (defn st) = Some u \<and>
      uiSchema (defn st1) = Some (u(t \<mapsto> set_own (opt_list (u t)) ''component'' (JObj [(''type'', ty)])))"
proof -
  from assms obtain u where u: "uiSchema (defn st) = Some u"
    by (auto simp: addComponentToUiSchemaAndReturnUiField_def split: option.splits)
  have "(case u t of None \<Rightarrow> [] | Some kvs \<Rightarrow> kvs) = opt_list (u t)"
    by (cases "u t") simp_all
  with assms u show ?thesis
    by (auto simp: addComponentToUiSchemaAndReturnUiField_def Let_def)
qed

text \<open>
  C9. An instance that \<open>FormInstanceFactory\<close> returns holds the caller's definition
  (schema, sections and \<open>uiSchema\<close>) and model exactly as they were supplied; what was
  decorated is the instance's own copy of the sections, in \<open>sortOrder\<close>. A call of
  \<open>__decorateField\<close> never changes the schema or the model; without a component key it
  leaves the whole definition as it is, and with one the only change is the entry of
  \<open>uiSchema\<close> at the tag of the call, which gets the component \<open>{type}\<close>.
\<close>

theorem construction_leaves_definition:
  "(\<forall>inst. FormInstanceFactory env (Some d) m validator = Inr inst \<longrightarrow>
      defn inst = d \<and> model inst = m \<and>
      sorted_wrt (\<lambda>a b. sortOrder_le (sortOrder a) (sortOrder b)) (sections inst)) \<and>
   (\<forall>f t key st f' st'. decorateField env f t key st = Inr (f', st') \<longrightarrow>
      schema (defn st') = schema (defn st) \<and> model st' = model st \<and>
      (\<not> truthy key \<longrightarrow> defn st' = defn st) \<and>
      (truthy key \<longrightarrow>
         (\<exists>u. uiSchema (defn st) = Some u \<and>
            uiSchema (defn st') =
              Some (u(t \<mapsto> set_own (opt_list (u t)) ''component'' (JObj [(''type'', key)]))))))"
proof -
  have A: "\<forall>inst. FormInstanceFactory env (Some d) m validator = Inr inst \<longrightarrow>
      defn inst = d \<and> model inst = m \<and>
      sorted_wrt (\<lambda>a b. sortOrder_le (sortOrder a) (sortOrder b)) (sections inst)"
  proof (intro allI impI)
    fix inst assume run: "FormInstanceFactory env (Some d) m validator = Inr inst"
    let ?st0 = "\<lparr>defn = d, model = m, sections = [], fields_by_tag = Map.empty,
        dirty = Map.empty, validationResults = (\<lambda>t. JUndefined)\<rparr>"
    from run obtain st1 where i: "initFields env ?st0 = Inr st1"
      and v: "inst = validate env validator st1"
      by (auto simp: FormInstanceFactory_def initInstance_def split: if_splits option.splits sum.splits)
    from initFields_frame[OF i] v
    show "defn inst = d \<and> model inst = m \<and>
        sorted_wrt (\<lambda>a b. sortOrder_le (sortOrder a) (sortOrder b)) (sections inst)"
      by (simp add: validate_def)
  qed
  have B: "\<forall>f t key st f' st'. decorateField env f t key st = Inr (f', st') \<longrightarrow>
      schema (defn st') = schema (defn st) \<and> model st' = model st \<and>
      (\<not> truthy key \<longrightarrow> defn st' = defn st) \<and>
      (truthy key \<longrightarrow>
         (\<exists>u. uiSchema (defn st) = Some u \<and>
            uiSchema (defn st') =
              Some (u(t \<mapsto> set_own (opt_list (u t)) ''component'' (JObj [(''type'', key)])))))"
  proof (intro allI impI)
    fix f t key st f' st'
    assume run: "decorateField env f t key st = Inr (f', st')"
    note fr = decorate_frame(1)[OF run]
    show "schema (defn st') = schema (defn st) \<and> model st' = model st \<and>
        (\<not> truthy key \<longrightarrow> defn st' = defn st) \<and>
        (truthy key \<longrightarrow>
           (\<exists>u. uiSchema (defn st) = Some u \<and>
              uiSchema (defn st') =
                Some (u(t \<mapsto> set_own (opt_list (u t)) ''component'' (JObj [(''type'', key)])))))"
    proof (cases "truthy key")
      case False
      with fr show ?thesis by simp
    next
      case True
      with fr obtain ui st1 where a: "addComponentToUiSchemaAndReturnUiField t key st = Inr (ui, st1)"
        and d: "defn st' = defn st1" by auto
      from addComponent_frame(4)[OF a] addComponent_uiSchema[OF a] d fr True
      show ?thesis by simp
    qed
  qed
  from A B show ?thesis by (rule conjI)
qed


theorem construction_leaves_definition_witness:
  "raised (FormInstanceFactory ex_env (Some ex_definition) Map.empty None) = None \<and>
   map_sum id defn (FormInstanceFactory ex_env (Some ex_definition) Map.empty None)
     = Inr ex_definition \<and>
   index_ref (FormInstanceFactory ex_env (Some ex_definition) Map.empty None) ''g'' = Some 4 \<and>
   truthy (JStr ''checkbox'') \<and>
   map_sum id (\<lambda>r. uiSchema (defn (snd r)))
      (decorateField ex_env (leaf 7 STRING) ''name'' (JStr ''checkbox'')
         (empty_form\<lparr>defn := ex_definition\<rparr>))
     = Inr (Some [''name'' \<mapsto> [(''component'', JObj [(''type'', JStr ''checkbox'')])]])"
proof -
  have "raised (FormInstanceFactory ex_env (Some ex_definition) Map.empty None) = None \<and>
    index_ref (FormInstanceFactory ex_env (Some ex_definition) Map.empty None) ''g'' = Some 4"
    by (simp add: FormInstanceFactory_def ex_definition_def ex_schema_of_def ex_section_def
        definition_isEmpty_def schema_isEmpty_def initInstance_def initFields_def ex_option_def
        ex_choice_def sortBy_sortOrder_def sortOrder_le_def clone_section_def clone_subsection_def
        ex_clone_leaf clone_props_def clone_oprops_def
        ex_decorate_leaf decorateProps_def ex_env_sel getUiSchemaField_def set_parent_def
        validate_def raised_def index_ref_def plain_props_def Let_def already_exists_def
        inherited_names_def)
  then obtain inst where
    i: "FormInstanceFactory ex_env (Some ex_definition) Map.empty None = Inr inst"
    and g: "index_ref (FormInstanceFactory ex_env (Some ex_definition) Map.empty None) ''g'' = Some 4"
    by (auto simp: raised_def split: sum.splits)
  have d: "decorateField ex_env (leaf 7 STRING) ''name'' (JStr ''checkbox'')
         (empty_form\<lparr>defn := ex_definition\<rparr>)
     = Inr (Field ((plain_props 7 STRING)
              \<lparr>uiField := JObj [(''component'', JObj [(''type'', JStr ''checkbox'')])],
               componentType := JStr ''checkbox'', component := JStr ''checkbox''\<rparr>) None None,
            empty_form\<lparr>defn := ex_definition
                \<lparr>uiSchema := Some [''name'' \<mapsto> [(''component'', JObj [(''type'', JStr ''checkbox'')])]]\<rparr>,
              fields_by_tag := [''name'' \<mapsto> Field ((plain_props 7 STRING)
              \<lparr>uiField := JObj [(''component'', JObj [(''type'', JStr ''checkbox'')])],
               componentType := JStr ''checkbox'', component := JStr ''checkbox''\<rparr>) None None]\<rparr>)"
    by (simp add: leaf_def decorateProps_def ex_env_sel plain_props_def empty_form_def
        addComponentToUiSchemaAndReturnUiField_def ex_definition_def ex_schema_of_def Let_def
        already_exists_def inherited_names_def)
  from construction_leaves_definition[of ex_env ex_definition Map.empty None] i d
  have "defn inst = ex_definition"
    and "uiSchema (defn (empty_form\<lparr>defn := ex_definition
                \<lparr>uiSchema := Some [''name'' \<mapsto> [(''component'', JObj [(''type'', JStr ''checkbox'')])]]\<rparr>,
              fields_by_tag := [''name'' \<mapsto> Field ((plain_props 7 STRING)
              \<lparr>uiField := JObj [(''component'', JObj [(''type'', JStr ''checkbox'')])],
               componentType := JStr ''checkbox'', component := JStr ''checkbox''\<rparr>) None None]\<rparr>))
       = Some [''name'' \<mapsto> [(''component'', JObj [(''type'', JStr ''checkbox'')])]]"
    by simp_all
  with i g d show ?thesis by (simp add: raised_def)
qed


lemma invalid_definition_refused:
  "FormInstanceFactory env None m v = Inl InvalidDefinitionError"
  "definition_isEmpty d \<Longrightarrow> FormInstanceFactory env (Some d) m v = Inl InvalidDefinitionError"
  "schema d = None \<Longrightarrow> FormInstanceFactory env (Some d) m v = Inl InvalidDefinitionError"
  "schema d = Some sch \<Longrightarrow> schema_isEmpty sch
   \<Longrightarrow> FormInstanceFactory env (Some d) m v = Inl InvalidDefinitionError"
  by (simp_all add: FormInstanceFactory_def)

lemma decorateField_registered:
  "already_exists st t \<Longrightarrow> decorateField env f t key st = Inl (DuplicateTagError t)"
  by (cases f) simp

lemma decorateField_untyped:
  "\<not> already_exists st t \<Longrightarrow> ftype (props f) = None
   \<Longrightarrow> decorateField env f t key st = Inl MissingTypeError"
  by (cases f) simp

text \<open>
  C8, at a definition that repeats a tag. When a field and a field beneath it (among its
  child fields or under one of its options) share the tag \<open>a\<close>, \<open>FormInstanceFactory\<close>
  raises nothing and returns an instance whose tag index holds the outer field at \<open>a\<close>;
  when two fields in different subsections share the tag it raises \<open>DuplicateTagError\<close>.
\<close>

theorem nested_duplicate_tag_accepted:
  "raised (FormInstanceFactory ex_env (Some ex_nested_duplicate) Map.empty None) = None \<and>
   index_ref (FormInstanceFactory ex_env (Some ex_nested_duplicate) Map.empty None) ''a'' = Some 1 \<and>
   raised (FormInstanceFactory ex_env (Some ex_option_duplicate) Map.empty None) = None \<and>
   index_ref (FormInstanceFactory ex_env (Some ex_option_duplicate) Map.empty None) ''a'' = Some 1 \<and>
   raised (FormInstanceFactory ex_env (Some ex_sibling_duplicate) Map.empty None)
     = Some (DuplicateTagError ''a'')"
proof -
  have n: "raised (FormInstanceFactory ex_env (Some ex_nested_duplicate) Map.empty None) = None \<and>
    index_ref (FormInstanceFactory ex_env (Some ex_nested_duplicate) Map.empty None) ''a'' = Some 1"
    by (simp add: FormInstanceFactory_def ex_nested_duplicate_def ex_schema_of_def ex_section_def
        definition_isEmpty_def schema_isEmpty_def initInstance_def initFields_def
        sortBy_sortOrder_def clone_section_def clone_subsection_def ex_clone_leaf clone_props_def
        ex_decorate_leaf decorateProps_def ex_env_sel getUiSchemaField_def set_parent_def
        validate_def raised_def index_ref_def plain_props_def already_exists_def
        inherited_names_def)
  have o: "raised (FormInstanceFactory ex_env (Some ex_option_duplicate) Map.empty None) = None \<and>
    index_ref (FormInstanceFactory ex_env (Some ex_option_duplicate) Map.empty None) ''a'' = Some 1"
    by (simp add: FormInstanceFactory_def ex_option_duplicate_def ex_schema_of_def ex_section_def
        definition_isEmpty_def schema_isEmpty_def initInstance_def initFields_def ex_option_def
        sortBy_sortOrder_def clone_section_def clone_subsection_def ex_clone_leaf clone_props_def
        clone_oprops_def
        ex_decorate_leaf decorateProps_def ex_env_sel getUiSchemaField_def set_parent_def
        validate_def raised_def index_ref_def plain_props_def already_exists_def
        inherited_names_def)
  have s: "raised (FormInstanceFactory ex_env (Some ex_sibling_duplicate) Map.empty None)
     = Some (DuplicateTagError ''a'')"
    by (simp add: FormInstanceFactory_def ex_sibling_duplicate_def ex_schema_of_def ex_section_def
        definition_isEmpty_def schema_isEmpty_def initInstance_def initFields_def
        sortBy_sortOrder_def sortOrder_le_def clone_section_def clone_subsection_def ex_clone_leaf
        ex_decorate_leaf decorateField_registered ex_env_sel getUiSchemaField_def
        validate_def raised_def Let_def already_exists_def inherited_names_def)
  from n o s show ?thesis by simp
qed

end
